theory Spec2Isabelle
  imports Main "HOL-Library.Sublist"
begin

section \<open>Data model\<close>

text \<open>
  JavaScript strings are modelled as \<open>string\<close> (lists of 8-bit code units). Within
  that range the line terminators of the regular-expression engine are LF and CR.
  The three pictographs of the summary texts are written as the bytes of their UTF-8
  encoding. Optional fields (\<open>changeReason?\<close>, \<open>commitSha?\<close>, ...) are options, with
  \<open>None\<close> for \<open>undefined\<close>.
\<close>

record ProjectVersion =
  project :: string
  path :: string
  version :: string
  versionChanged :: bool
  changeReason :: "string option"
  commitSha :: "string option"
  commitDate :: "string option"
  commitMessage :: "string option"
  branchType :: "string option"
  branchName :: "string option"
  isTestProject :: bool
  isPackable :: bool
  dependencies :: "string list"

record VersionCalculationResult =
  projects :: "ProjectVersion list"
  changedProjects :: "ProjectVersion list"
  hasChanges :: bool
  summary :: string

section \<open>String helpers of the JavaScript runtime\<close>

definition nl :: string where
  "nl = [CHR 0x0A]"

definition emojiChart :: string where
  "emojiChart = [CHR 0xF0, CHR 0x9F, CHR 0x93, CHR 0x8A]"

definition emojiCycle :: string where
  "emojiCycle = [CHR 0xF0, CHR 0x9F, CHR 0x94, CHR 0x84]"

definition emojiCheck :: string where
  "emojiCheck = [CHR 0xE2, CHR 0x9C, CHR 0x85]"

text \<open>\<open>Array.prototype.join\<close>.\<close>

fun joinStr :: "string \<Rightarrow> string list \<Rightarrow> string" where
  "joinStr sep [] = []"
| "joinStr sep [x] = x"
| "joinStr sep (x # y # ys) = x @ sep @ joinStr sep (y # ys)"

text \<open>Decimal rendering of a number inside a template literal.\<close>

definition digitChar :: "nat \<Rightarrow> char" where
  "digitChar d = char_of (48 + d)"

fun natToString :: "nat \<Rightarrow> string" where
  "natToString n = (if n < 10 then [digitChar n] else natToString (n div 10) @ [digitChar (n mod 10)])"

declare natToString.simps [simp del]

definition intToString :: "int \<Rightarrow> string" where
  "intToString i = (if i < 0 then CHR ''-'' # natToString (nat (- i)) else natToString (nat i))"

definition boolToString :: "bool \<Rightarrow> string" where
  "boolToString b = (if b then ''true'' else ''false'')"

text \<open>An optional string inside a template literal: \<open>undefined\<close> prints as such.\<close>

definition showOpt :: "string option \<Rightarrow> string" where
  "showOpt x = (case x of None \<Rightarrow> ''undefined'' | Some s \<Rightarrow> s)"

text \<open>Truthiness of an optional string: \<open>undefined\<close> and the empty string are falsy.\<close>

definition truthy :: "string option \<Rightarrow> bool" where
  "truthy x = (case x of None \<Rightarrow> False | Some s \<Rightarrow> s \<noteq> [])"

text \<open>\<open>String.prototype.split\<close> with a single-character class as separator.\<close>

fun splitOn :: "(char \<Rightarrow> bool) \<Rightarrow> string \<Rightarrow> string list" where
  "splitOn P [] = [[]]"
| "splitOn P (c # cs) =
     (if P c then [] # splitOn P cs
      else (case splitOn P cs of [] \<Rightarrow> [[c]] | x # xs \<Rightarrow> (c # x) # xs))"

definition isDigit :: "char \<Rightarrow> bool" where
  "isDigit c = (c \<in> set ''0123456789'')"

definition isLineTerminator :: "char \<Rightarrow> bool" where
  "isLineTerminator c = (c = CHR 0x0A \<or> c = CHR 0x0D)"

definition toLowerChar :: "char \<Rightarrow> char" where
  "toLowerChar c = (if c \<in> set ''ABCDEFGHIJKLMNOPQRSTUVWXYZ'' then char_of (of_char c + (32 :: nat)) else c)"

definition toLowerCase :: "string \<Rightarrow> string" where
  "toLowerCase s = map toLowerChar s"

section \<open>Result aggregation\<close>

definition changedLine :: "ProjectVersion \<Rightarrow> string" where
  "changedLine p = ''- **'' @ project p @ ''**: '' @ version p @ '' _('' @ showOpt (changeReason p) @ '')_''"

definition unchangedLine :: "ProjectVersion \<Rightarrow> string" where
  "unchangedLine p = ''- **'' @ project p @ ''**: '' @ version p"

definition summaryLines :: "ProjectVersion list \<Rightarrow> ProjectVersion list \<Rightarrow> string list" where
  "summaryLines allProjects changed =
     [''**'' @ emojiChart @ '' Version Calculation Summary**'',
      ''- Total projects: '' @ natToString (length allProjects),
      ''- Projects with changes: '' @ natToString (length changed),
      ''- Projects unchanged: '' @ intToString (int (length allProjects) - int (length changed))]
     @ (if length changed > 0
        then [[], ''**'' @ emojiCycle @ '' Changed Projects:**''] @ map changedLine changed
        else [])
     @ (if int (length allProjects) - int (length changed) > 0
        then [[], ''**'' @ emojiCheck @ '' Unchanged Projects:**'']
             @ map unchangedLine (filter (\<lambda>p. \<not> versionChanged p) allProjects)
        else [])"

definition generateSummary :: "ProjectVersion list \<Rightarrow> ProjectVersion list \<Rightarrow> string" where
  "generateSummary allProjects changed = joinStr nl (summaryLines allProjects changed)"

datatype logEntry = Info string | Warning string

text \<open>
  \<open>analyzeResults\<close>: the value it returns, and the line it writes to the log when
  test projects were filtered out.
\<close>

definition analyzeResults :: "ProjectVersion list \<Rightarrow> bool \<Rightarrow> VersionCalculationResult" where
  "analyzeResults ps includeTestProjects =
     (let filteredProjects = (if includeTestProjects then ps else filter (\<lambda>p. \<not> isTestProject p) ps);
          changed = filter versionChanged filteredProjects
      in \<lparr> projects = filteredProjects,
           changedProjects = changed,
           hasChanges = (length changed > 0),
           summary = generateSummary filteredProjects changed \<rparr>)"

definition analyzeResultsLog :: "ProjectVersion list \<Rightarrow> bool \<Rightarrow> logEntry list" where
  "analyzeResultsLog ps includeTestProjects =
     (let testProjectCount = length (filter isTestProject ps)
      in if \<not> includeTestProjects \<and> testProjectCount > 0
         then [Info (''Filtered out '' @ natToString testProjectCount @ '' test project(s)'')]
         else [])"

text \<open>
  The functions of Node's \<open>path\<close> module that the action calls, with the working
  directory already supplied to \<open>relative\<close>.
\<close>

record pathModule =
  relative :: "string \<Rightarrow> string"
  dirname :: "string \<Rightarrow> string"
  joinPath :: "string \<Rightarrow> string \<Rightarrow> string"

text \<open>
  \<open>createVersionMap\<close>: the object used as a dictionary is a map from property names
  to values; the loop assigns two properties per project.
\<close>

fun createVersionMapLoop ::
  "pathModule \<Rightarrow> (string \<rightharpoonup> string) \<Rightarrow> ProjectVersion list \<Rightarrow> (string \<rightharpoonup> string)" where
  "createVersionMapLoop P m [] = m"
| "createVersionMapLoop P m (p # ps) =
     createVersionMapLoop P
       ((m(project p \<mapsto> version p))(relative P (path p) \<mapsto> version p)) ps"

definition createVersionMap :: "pathModule \<Rightarrow> ProjectVersion list \<Rightarrow> (string \<rightharpoonup> string)" where
  "createVersionMap P ps = createVersionMapLoop P Map.empty ps"

section \<open>Version decomposition\<close>

text \<open>
  The pattern \<open>/^(\\d+)\\.(\\d+)\\.(\\d+)(?:-(.+))?$/\<close> of \<open>updateProjectFile\<close> and
  \<open>writeMrVersionPropsFile\<close>: three non-empty digit runs separated by dots, then either
  the end of the string or a hyphen followed by a non-empty rest without a line
  terminator. The result holds the four capture groups; the fourth is \<open>None\<close> when
  the optional group did not take part in the match.
\<close>

definition versionMatch :: "string \<Rightarrow> (string \<times> string \<times> string \<times> string option) option" where
  "versionMatch v =
     (let major = takeWhile isDigit v; r1 = dropWhile isDigit v in
      if major = [] then None else
      case r1 of [] \<Rightarrow> None | c1 # r2 \<Rightarrow>
      if c1 \<noteq> CHR ''.'' then None else
      let minor = takeWhile isDigit r2; r3 = dropWhile isDigit r2 in
      if minor = [] then None else
      case r3 of [] \<Rightarrow> None | c2 # r4 \<Rightarrow>
      if c2 \<noteq> CHR ''.'' then None else
      let patch = takeWhile isDigit r4; r5 = dropWhile isDigit r4 in
      if patch = [] then None else
      case r5 of [] \<Rightarrow> Some (major, minor, patch, None)
      | c3 # pre \<Rightarrow>
          if c3 = CHR ''-'' \<and> pre \<noteq> [] \<and> list_all (\<lambda>c. \<not> isLineTerminator c) pre
          then Some (major, minor, patch, Some pre) else None)"

text \<open>
  The decomposition of \<open>run\<close> for the component outputs:
  \<open>version.split(/[.-]/)\<close>, \<open>parts[i] || '0'\<close> and \<open>parts.slice(3).join('.')\<close>.
\<close>

definition versionParts :: "string \<Rightarrow> string list" where
  "versionParts v = splitOn (\<lambda>c. c = CHR ''.'' \<or> c = CHR ''-'') v"

definition partOr0 :: "string list \<Rightarrow> nat \<Rightarrow> string" where
  "partOr0 parts i = (if i < length parts \<and> parts ! i \<noteq> [] then parts ! i else ''0'')"

definition prereleaseOf :: "string list \<Rightarrow> string" where
  "prereleaseOf parts = (if length parts > 3 then joinStr ''.'' (drop 3 parts) else [])"

text \<open>Rejoining components with the separators of the version syntax.\<close>

definition rejoin :: "string \<Rightarrow> string \<Rightarrow> string \<Rightarrow> string \<Rightarrow> string" where
  "rejoin major minor patch prerelease =
     major @ ''.'' @ minor @ ''.'' @ patch @ (if prerelease = [] then [] else ''-'' @ prerelease)"

section \<open>Regular-expression replacement\<close>

text \<open>
  \<open>.*\<close> followed by a literal, as the backtracking engine matches it at the start
  of a string: the star first takes every character it can (any but a line
  terminator), and gives characters back until the literal follows. The result is
  the number of characters the star keeps.
\<close>

fun greedyDotStarThen :: "string \<Rightarrow> string \<Rightarrow> nat option" where
  "greedyDotStarThen lit [] = (if lit = [] then Some 0 else None)"
| "greedyDotStarThen lit (c # cs) =
     (case (if isLineTerminator c then None else greedyDotStarThen lit cs) of
        Some k \<Rightarrow> Some (Suc k)
      | None \<Rightarrow> (if prefix lit (c # cs) then Some 0 else None))"

definition openTag :: "string \<Rightarrow> string" where
  "openTag name = ''<'' @ name @ ''>''"

definition closeTag :: "string \<Rightarrow> string" where
  "closeTag name = ''</'' @ name @ ''>''"

text \<open>
  The length of the match of \<open>/<NAME>.*<\/NAME>/\<close> at the start of a string, if it
  matches there.
\<close>

definition matchElement :: "string \<Rightarrow> string \<Rightarrow> nat option" where
  "matchElement name s =
     (if prefix (openTag name) s
      then (case greedyDotStarThen (closeTag name) (drop (length (openTag name)) s) of
              Some k \<Rightarrow> Some (length (openTag name) + k + length (closeTag name))
            | None \<Rightarrow> None)
      else None)"

text \<open>
  The replacement text of \<open>String.prototype.replace\<close> for one match of a pattern
  without capture groups: \<open>$$\<close> is a dollar sign, \<open>$&\<close> the matched text, \<open>$`\<close> the
  text before the match and \<open>$'\<close> the text after it; every other character stands
  for itself.
\<close>

fun getSubstitution :: "string \<Rightarrow> string \<Rightarrow> string \<Rightarrow> string \<Rightarrow> string" where
  "getSubstitution matched preceding following [] = []"
| "getSubstitution matched preceding following [c] = [c]"
| "getSubstitution matched preceding following (c # d # rest) =
     (if c = CHR ''$'' \<and> d = CHR ''$'' then CHR ''$'' # getSubstitution matched preceding following rest
      else if c = CHR ''$'' \<and> d = CHR ''&'' then matched @ getSubstitution matched preceding following rest
      else if c = CHR ''$'' \<and> d = CHR 0x60 then preceding @ getSubstitution matched preceding following rest
      else if c = CHR ''$'' \<and> d = CHR 0x27 then following @ getSubstitution matched preceding following rest
      else c # getSubstitution matched preceding following (d # rest))"

text \<open>
  \<open>s.replace(/<NAME>.*<\/NAME>/g, replacement)\<close>: the scan from left to right,
  \<open>preceding\<close> being the text already passed. After a match the scan goes on behind it.
\<close>

function replaceFrom :: "string \<Rightarrow> string \<Rightarrow> string \<Rightarrow> string \<Rightarrow> string" where
  "replaceFrom name replacement preceding [] = []"
| "replaceFrom name replacement preceding (c # cs) =
     (case matchElement name (c # cs) of
        None \<Rightarrow> c # replaceFrom name replacement (preceding @ [c]) cs
      | Some n \<Rightarrow>
          getSubstitution (take n (c # cs)) preceding (drop n (c # cs)) replacement
          @ replaceFrom name replacement (preceding @ take n (c # cs)) (drop n (c # cs)))"
  by pat_completeness auto
termination
  by (relation "measure (\<lambda>(name, replacement, preceding, s). length s)")
     (auto simp: matchElement_def openTag_def split: if_splits option.splits)

definition replaceElement :: "string \<Rightarrow> string \<Rightarrow> string \<Rightarrow> string" where
  "replaceElement name replacement s = replaceFrom name replacement [] s"

text \<open>
  The content \<open>updateProjectFile\<close> computes from the content it read, for a version
  that matched with the given capture groups.
\<close>

definition updatedContentOf ::
  "string \<Rightarrow> string \<Rightarrow> string \<Rightarrow> string \<Rightarrow> string option \<Rightarrow> string \<Rightarrow> string" where
  "updatedContentOf v major minor patch prerelease content =
     (let c1 = replaceElement ''Version'' (''<Version>'' @ v @ ''</Version>'') content;
          c2 = replaceElement ''VersionMajor'' (''<VersionMajor>'' @ major @ ''</VersionMajor>'') c1;
          c3 = replaceElement ''VersionMinor'' (''<VersionMinor>'' @ minor @ ''</VersionMinor>'') c2;
          c4 = replaceElement ''VersionPatch'' (''<VersionPatch>'' @ patch @ ''</VersionPatch>'') c3
      in if truthy prerelease
         then replaceElement ''VersionSuffix''
                (''<VersionSuffix>'' @ showOpt prerelease @ ''</VersionSuffix>'') c4
         else c4)"

section \<open>Files, log and the manifest mutator\<close>

text \<open>
  The state the action works on: the text files by path, which paths can be written,
  the log (\<open>core.info\<close>, \<open>core.warning\<close>), the outputs set so far, the failure message
  of \<open>core.setFailed\<close> and the job summary.
\<close>

datatype error = ENOENT string | EACCES string | OracleError string

definition errorMessage :: "error \<Rightarrow> string" where
  "errorMessage e =
     (case e of
        ENOENT p \<Rightarrow> ''ENOENT: no such file or directory, open '' @ [CHR 0x27] @ p @ [CHR 0x27]
      | EACCES p \<Rightarrow> ''EACCES: permission denied, open '' @ [CHR 0x27] @ p @ [CHR 0x27]
      | OracleError m \<Rightarrow> m)"

datatype outputValue =
  Text string
  | JsonProjects "ProjectVersion list"
  | JsonVersionMap "string \<Rightarrow> string option"

datatype formatted = Rendered string | JsonResult VersionCalculationResult

record state =
  files :: "string \<Rightarrow> string option"
  writable :: "string \<Rightarrow> bool"
  logs :: "logEntry list"
  outputs :: "(string \<times> outputValue) list"
  failed :: "string option"
  jobSummary :: "(string \<times> formatted \<times> string) option"

definition info :: "string \<Rightarrow> state \<Rightarrow> state" where
  "info msg s = s\<lparr>logs := logs s @ [Info msg]\<rparr>"

definition warning :: "string \<Rightarrow> state \<Rightarrow> state" where
  "warning msg s = s\<lparr>logs := logs s @ [Warning msg]\<rparr>"

definition setOutput :: "string \<Rightarrow> outputValue \<Rightarrow> state \<Rightarrow> state" where
  "setOutput name val s = s\<lparr>outputs := outputs s @ [(name, val)]\<rparr>"

definition setFailed :: "string \<Rightarrow> state \<Rightarrow> state" where
  "setFailed msg s = s\<lparr>failed := Some msg\<rparr>"

definition readFile :: "string \<Rightarrow> state \<Rightarrow> error + string" where
  "readFile p s = (case files s p of None \<Rightarrow> Inl (ENOENT p) | Some content \<Rightarrow> Inr content)"

definition writeFile :: "string \<Rightarrow> string \<Rightarrow> state \<Rightarrow> error + state" where
  "writeFile p content s =
     (if writable s p then Inr (s\<lparr>files := (files s)(p \<mapsto> content)\<rparr>) else Inl (EACCES p))"

definition updateProjectFile :: "ProjectVersion \<Rightarrow> state \<Rightarrow> error + state" where
  "updateProjectFile p s =
     (case readFile (path p) s of
        Inl e \<Rightarrow> Inl e
      | Inr content \<Rightarrow>
          (case versionMatch (version p) of
             None \<Rightarrow> Inr (warning (''Cannot parse version '' @ version p @ '' for '' @ project p) s)
           | Some (major, minor, patch, prerelease) \<Rightarrow>
               (let updatedContent = updatedContentOf (version p) major minor patch prerelease content
                in if updatedContent \<noteq> content
                   then (case writeFile (path p) updatedContent s of
                           Inl e \<Rightarrow> Inl e
                         | Inr s' \<Rightarrow> Inr (info (''Updated version properties in '' @ project p) s'))
                   else Inr s)))"

definition propsContent ::
  "string \<Rightarrow> string \<Rightarrow> string \<Rightarrow> string \<Rightarrow> string option \<Rightarrow> string option \<Rightarrow> string" where
  "propsContent v major minor patch prerelease sha =
     ''<Project>'' @ nl
     @ ''  <!-- Generated by Mister.Version -->'' @ nl
     @ ''  <PropertyGroup>'' @ nl
     @ ''    <Version>'' @ v @ ''</Version>'' @ nl
     @ ''    <VersionMajor>'' @ major @ ''</VersionMajor>'' @ nl
     @ ''    <VersionMinor>'' @ minor @ ''</VersionMinor>'' @ nl
     @ ''    <VersionPatch>'' @ patch @ ''</VersionPatch>''
     @ (if truthy prerelease
        then nl @ ''    <VersionSuffix>'' @ showOpt prerelease @ ''</VersionSuffix>''
        else [])
     @ nl
     @ ''    <AssemblyVersion>'' @ major @ ''.'' @ minor @ ''.'' @ patch @ ''.0</AssemblyVersion>'' @ nl
     @ ''    <FileVersion>'' @ major @ ''.'' @ minor @ ''.'' @ patch @ ''.0</FileVersion>'' @ nl
     @ ''    <InformationalVersion>'' @ v
     @ (if truthy sha then ''+'' @ take 7 (showOpt sha) else [])
     @ ''</InformationalVersion>'' @ nl
     @ ''  </PropertyGroup>'' @ nl
     @ ''</Project>'' @ nl"

definition propsPath :: "pathModule \<Rightarrow> ProjectVersion \<Rightarrow> string" where
  "propsPath P p = (let projectDir = dirname P (path p) in joinPath P projectDir ''MrVersion.props'')"

definition writeMrVersionPropsFile :: "pathModule \<Rightarrow> ProjectVersion \<Rightarrow> state \<Rightarrow> error + state" where
  "writeMrVersionPropsFile P p s =
     (case versionMatch (version p) of
        None \<Rightarrow> Inr (warning (''Cannot parse version '' @ version p @ '' for '' @ project p) s)
      | Some (major, minor, patch, prerelease) \<Rightarrow>
          (case writeFile (propsPath P p)
                  (propsContent (version p) major minor patch prerelease (commitSha p)) s of
             Inl e \<Rightarrow> Inl e
           | Inr s' \<Rightarrow> Inr (info (''Created MrVersion.props for '' @ project p) s')))"

text \<open>
  The body of the \<open>try\<close> block of \<open>updateProjects\<close> for one project: the state it
  reaches, and the error that ended it, if one was thrown.
\<close>

definition tryUpdate ::
  "pathModule \<Rightarrow> ProjectVersion \<Rightarrow> bool \<Rightarrow> bool \<Rightarrow> state \<Rightarrow> state \<times> error option" where
  "tryUpdate P p updateProperties writeProps s =
     (case (if updateProperties then updateProjectFile p s else Inr s) of
        Inl e \<Rightarrow> (s, Some e)
      | Inr s1 \<Rightarrow>
          (case (if writeProps then writeMrVersionPropsFile P p s1 else Inr s1) of
             Inl e \<Rightarrow> (s1, Some e)
           | Inr s2 \<Rightarrow> (s2, None)))"

definition updateProject ::
  "pathModule \<Rightarrow> ProjectVersion \<Rightarrow> bool \<Rightarrow> bool \<Rightarrow> state \<Rightarrow> state" where
  "updateProject P p updateProperties writeProps s =
     (case tryUpdate P p updateProperties writeProps s of
        (s', None) \<Rightarrow> s'
      | (s', Some e) \<Rightarrow>
          warning (''Failed to update project '' @ project p @ '': '' @ errorMessage e) s')"

fun updateProjects ::
  "pathModule \<Rightarrow> ProjectVersion list \<Rightarrow> bool \<Rightarrow> bool \<Rightarrow> state \<Rightarrow> state" where
  "updateProjects P [] updateProperties writeProps s = s"
| "updateProjects P (p # ps) updateProperties writeProps s =
     updateProjects P ps updateProperties writeProps
       (updateProject P p updateProperties writeProps s)"

text \<open>
  Two states that differ at most in the files and the log: what the manifest mutator
  may change.
\<close>

definition framed :: "state \<Rightarrow> state \<Rightarrow> bool" where
  "framed s s' = (outputs s' = outputs s \<and> failed s' = failed s \<and> writable s' = writable s
                  \<and> jobSummary s' = jobSummary s)"

section \<open>Output formatting\<close>

definition fence :: string where
  "fence = replicate 3 (CHR 0x60)"

definition yamlLines :: "ProjectVersion \<Rightarrow> string list" where
  "yamlLines p =
     [''  - name: '' @ project p,
      ''    version: '' @ version p,
      ''    changed: '' @ boolToString (versionChanged p)]
     @ (if truthy (changeReason p)
        then [''    reason: '' @ [CHR 0x22] @ showOpt (changeReason p) @ [CHR 0x22]]
        else [])"

definition formatAsYaml :: "VersionCalculationResult \<Rightarrow> string" where
  "formatAsYaml result =
     joinStr nl ([fence @ ''yaml'', ''projects:''] @ concat (map yamlLines (projects result)) @ [fence])"

definition textLines :: "ProjectVersion \<Rightarrow> string list" where
  "textLines p =
     [(if versionChanged p then emojiCycle @ '' CHANGED'' else emojiCheck @ '' UNCHANGED'')
      @ '' '' @ project p @ '': '' @ version p]
     @ (if truthy (changeReason p) then [''    Reason: '' @ showOpt (changeReason p)] else [])"

definition formatAsText :: "VersionCalculationResult \<Rightarrow> string" where
  "formatAsText result =
     joinStr nl ([fence, ''Project Versions:'', ''================'']
                 @ concat (map textLines (projects result)) @ [fence])"

definition formatSummary :: "VersionCalculationResult \<Rightarrow> string \<Rightarrow> formatted" where
  "formatSummary result format =
     (if toLowerCase format = ''yaml'' then Rendered (formatAsYaml result)
      else if toLowerCase format = ''text'' then Rendered (formatAsText result)
      else JsonResult result)"

section \<open>The action\<close>

record actionInputs =
  outputFormat :: string
  failOnNoChanges :: bool
  updateProjectProperties :: bool
  writeMrVersionProps :: bool
  outputVersionInformation :: bool
  dryRun :: bool
  includeTestProjects :: bool

text \<open>
  The loop over the project files. The external process behind
  \<open>calculateProjectVersion\<close> is a parameter: for a project file it gives the record
  parsed from its output, or the error that \<open>calculateProjectVersion\<close> throws.
\<close>

fun calculateAll ::
  "(string \<Rightarrow> error + ProjectVersion) \<Rightarrow> string list \<Rightarrow> error + ProjectVersion list" where
  "calculateAll oracle [] = Inr []"
| "calculateAll oracle (f # fs) =
     (case oracle f of
        Inl e \<Rightarrow> Inl e
      | Inr r \<Rightarrow> (case calculateAll oracle fs of Inl e \<Rightarrow> Inl e | Inr rs \<Rightarrow> Inr (r # rs)))"

text \<open>The five component outputs, set from the first project of the list.\<close>

definition setVersionOutputs :: "ProjectVersion list \<Rightarrow> state \<Rightarrow> state" where
  "setVersionOutputs ps s =
     (case ps of
        firstProject # rest \<Rightarrow>
          (let parts = versionParts (version firstProject);
               s1 = setOutput ''version'' (Text (version firstProject)) s;
               s2 = setOutput ''major'' (Text (partOr0 parts 0)) s1;
               s3 = setOutput ''minor'' (Text (partOr0 parts 1)) s2;
               s4 = setOutput ''patch'' (Text (partOr0 parts 2)) s3
           in setOutput ''prerelease'' (Text (prereleaseOf parts)) s4)
      | [] \<Rightarrow>
          (let s1 = setOutput ''version'' (Text ''0.1.0'') s;
               s2 = setOutput ''major'' (Text ''0'') s1;
               s3 = setOutput ''minor'' (Text ''1'') s2;
               s4 = setOutput ''patch'' (Text ''0'') s3
           in setOutput ''prerelease'' (Text []) s4))"

definition setResultOutputs :: "pathModule \<Rightarrow> VersionCalculationResult \<Rightarrow> state \<Rightarrow> state" where
  "setResultOutputs P analysisResult s =
     (let versionMap = createVersionMap P (projects analysisResult);
          s1 = setOutput ''projects'' (JsonProjects (projects analysisResult)) s;
          s2 = setOutput ''changed-projects'' (JsonProjects (changedProjects analysisResult)) s1;
          s3 = setOutput ''has-changes'' (Text (boolToString (hasChanges analysisResult))) s2;
          s4 = setOutput ''summary'' (Text (summary analysisResult)) s3
      in setOutput ''version-map'' (JsonVersionMap versionMap) s4)"

text \<open>The value of an output after the run: the last one set under that name.\<close>

definition outputOf :: "state \<Rightarrow> string \<Rightarrow> outputValue option" where
  "outputOf s name = map_of (rev (outputs s)) name"

text \<open>
  \<open>run\<close> in three parts: the log lines up to the discovery of the project files, the
  part from the version map to the end (reached when no failure stopped the run), and
  the function itself. The project files found and the version oracle are parameters.
  A thrown error is caught by the outer \<open>try\<close> and reported by \<open>core.setFailed\<close>.
\<close>

definition announce :: "actionInputs \<Rightarrow> string list \<Rightarrow> state \<Rightarrow> state" where
  "announce inp projectFiles s0 =
     (let s1 = info ''Calculating project versions...'' s0;
          s2 = info (''Found '' @ natToString (length projectFiles) @ '' project files'') s1
      in if includeTestProjects inp then s2
         else info ''Test projects will be excluded from results'' s2)"

definition publish ::
  "pathModule \<Rightarrow> actionInputs \<Rightarrow> ProjectVersion list \<Rightarrow> VersionCalculationResult \<Rightarrow> state \<Rightarrow> state" where
  "publish P inp results analysisResult s5 =
     (let s6 = setResultOutputs P analysisResult s5;
          s7 = setVersionOutputs (projects analysisResult) s6;
          s8 = (if updateProjectProperties inp \<or> writeMrVersionProps inp
                then (if dryRun inp
                      then info ''[DRY RUN] Would update project properties'' s7
                      else updateProjects P (projects analysisResult)
                             (updateProjectProperties inp) (writeMrVersionProps inp) s7)
                else s7);
          s9 = (if outputVersionInformation inp
                then s8\<lparr>jobSummary :=
                       Some (emojiChart @ '' Version Calculation Results'',
                             formatSummary analysisResult (outputFormat inp),
                             outputFormat inp)\<rparr>
                else s8)
      in info (emojiCheck @ '' Analyzed '' @ natToString (length results)
               @ '' projects, ''
               @ natToString (length (changedProjects analysisResult))
               @ '' with changes'') s9)"

definition run ::
  "pathModule \<Rightarrow> actionInputs \<Rightarrow> string list \<Rightarrow> (string \<Rightarrow> error + ProjectVersion) \<Rightarrow> state \<Rightarrow> state" where
  "run P inp projectFiles oracle s0 =
     (let s3 = announce inp projectFiles s0
      in if length projectFiles = 0 \<and> failOnNoChanges inp
         then setFailed ''No project files found and fail-on-no-changes is enabled'' s3
         else
           (let s4 = (if length projectFiles = 0
                      then warning ''No project files found matching the pattern'' s3 else s3)
            in case calculateAll oracle projectFiles of
                 Inl e \<Rightarrow> setFailed (''Failed to calculate versions: '' @ errorMessage e) s4
               | Inr results \<Rightarrow>
                   (let analysisResult = analyzeResults results (includeTestProjects inp);
                        s5 = s4\<lparr>logs := logs s4 @ analyzeResultsLog results (includeTestProjects inp)\<rparr>
                    in if failOnNoChanges inp \<and> hasChanges analysisResult = False
                       then setFailed ''No version changes detected and fail-on-no-changes is enabled'' s5
                       else publish P inp results analysisResult s5)))"

definition initialState :: "(string \<Rightarrow> string option) \<Rightarrow> (string \<Rightarrow> bool) \<Rightarrow> state" where
  "initialState fs w =
     \<lparr> files = fs, writable = w, logs = [], outputs = [], failed = None, jobSummary = None \<rparr>"

text \<open>The text of an optional capture group where the code uses it as a string.\<close>

definition orEmpty :: "string option \<Rightarrow> string" where
  "orEmpty x = (case x of None \<Rightarrow> [] | Some s \<Rightarrow> s)"

section \<open>Chunks of a line\<close>

text \<open>
  The rest of this part serves the proofs about \<open>replaceElement\<close>; nothing in it is
  code of the action. A line is cut at each \<open><\<close> into chunks, the text behind each
  \<open><\<close> up to the next one; on the chunks, one replacement finds the first chunk that
  starts an opening tag with a chunk that starts the closing tag somewhere behind it,
  and puts the fresh opening chunk in place of everything up to the last such closing
  chunk. \<open>fromLast\<close> is the list from its last element with the property on.
\<close>

fun fromLast :: "('a \<Rightarrow> bool) \<Rightarrow> 'a list \<Rightarrow> 'a list" where
  "fromLast Cls [] = []"
| "fromLast Cls (u # us) = (if list_ex Cls us then fromLast Cls us else if Cls u then u # us else [])"

fun substChunks :: "('a \<Rightarrow> bool) \<Rightarrow> ('a \<Rightarrow> bool) \<Rightarrow> 'a \<Rightarrow> 'a list \<Rightarrow> 'a list" where
  "substChunks Opn Cls w [] = []"
| "substChunks Opn Cls w (u # us) =
     (if Opn u \<and> list_ex Cls us then w # fromLast Cls us else u # substChunks Opn Cls w us)"

text \<open>
  The string of a list of chunks, and the texts that hold neither \<open><\<close> nor a line
  terminator.
\<close>

definition flat :: "string list \<Rightarrow> string" where
  "flat us = concat (map ((#) CHR ''<'') us)"

definition plain :: "string \<Rightarrow> bool" where
  "plain t = (list_all (\<lambda>c. c \<noteq> CHR ''<'') t \<and> list_all (\<lambda>c. isLineTerminator c = False) t)"

definition isOpenChunk :: "string \<Rightarrow> string \<Rightarrow> bool" where
  "isOpenChunk name u = prefix (name @ ''>'') u"

definition isCloseChunk :: "string \<Rightarrow> string \<Rightarrow> bool" where
  "isCloseChunk name u = prefix (''/'' @ name @ ''>'') u"

definition lineFree :: "string \<Rightarrow> bool" where
  "lineFree t = list_all (\<lambda>c. isLineTerminator c = False) t"

text \<open>
  One replacement on chunks and on strings, for an element name and the new value, and
  a list of them in order.
\<close>

definition chunkStep :: "string \<Rightarrow> string \<Rightarrow> string list \<Rightarrow> string list" where
  "chunkStep name v = substChunks (isOpenChunk name) (isCloseChunk name) (name @ ''>'' @ v)"

fun chunkSteps :: "(string \<times> string) list \<Rightarrow> string list \<Rightarrow> string list" where
  "chunkSteps [] us = us"
| "chunkSteps ((name, v) # xs) us = chunkSteps xs (chunkStep name v us)"

fun replaceSteps :: "(string \<times> string) list \<Rightarrow> string \<Rightarrow> string" where
  "replaceSteps [] s = s"
| "replaceSteps ((name, v) # xs) s =
     replaceSteps xs (replaceElement name (openTag name @ v @ closeTag name) s)"

text \<open>
  What the proofs need of the element names and the values: a name is plain, has no
  \<open>$\<close> and does not start with a slash; two names are apart when neither opening tag
  begins the other; a value is plain and has no \<open>$\<close>.
\<close>

definition goodName :: "string \<Rightarrow> bool" where
  "goodName name = (plain name \<and> CHR ''$'' \<notin> set name \<and> hd (name @ ''>'') \<noteq> CHR ''/'')"

definition apart :: "string \<Rightarrow> string \<Rightarrow> bool" where
  "apart n m = (prefix (n @ ''>'') (m @ ''>'') = False \<and> prefix (m @ ''>'') (n @ ''>'') = False)"

definition goodStep :: "string \<times> string \<Rightarrow> bool" where
  "goodStep x = (goodName (fst x) \<and> plain (snd x) \<and> CHR ''$'' \<notin> set (snd x))"

fun apartSteps :: "(string \<times> string) list \<Rightarrow> bool" where
  "apartSteps [] = True"
| "apartSteps (x # xs) = (list_all (\<lambda>y. apart (fst x) (fst y)) xs \<and> apartSteps xs)"

text \<open>The replacements of \<open>updateProjectFile\<close>, in its order.\<close>

definition tagSteps ::
  "string \<Rightarrow> string \<Rightarrow> string \<Rightarrow> string \<Rightarrow> string option \<Rightarrow> (string \<times> string) list" where
  "tagSteps v major minor patch prerelease =
     [(''Version'', v), (''VersionMajor'', major), (''VersionMinor'', minor), (''VersionPatch'', patch)]
     @ (if truthy prerelease then [(''VersionSuffix'', showOpt prerelease)] else [])"

section \<open>Concrete inputs for the examples\<close>

definition demoProject :: "string \<Rightarrow> string \<Rightarrow> string \<Rightarrow> bool \<Rightarrow> ProjectVersion" where
  "demoProject name file v changed =
     \<lparr> project = name, path = file, version = v, versionChanged = changed,
       changeReason = (if changed then Some ''feat'' else None), commitSha = None, commitDate = None,
       commitMessage = None, branchType = None, branchName = None,
       isTestProject = False, isPackable = True, dependencies = [] \<rparr>"

text \<open>Paths below the working directory \<open>/w\<close>, with \<open>/\<close> as separator.\<close>

definition demoPath :: pathModule where
  "demoPath =
     \<lparr> relative = (\<lambda>p. drop 3 p),
       dirname = (\<lambda>p. rev (tl (dropWhile (\<lambda>c. c \<noteq> CHR ''/'') (rev p)))),
       joinPath = (\<lambda>d f. d @ ''/'' @ f) \<rparr>"

definition demoInputs :: actionInputs where
  "demoInputs =
     \<lparr> outputFormat = ''json'', failOnNoChanges = False, updateProjectProperties = False,
       writeMrVersionProps = False, outputVersionInformation = False, dryRun = False,
       includeTestProjects = False \<rparr>"

definition demoState :: state where
  "demoState = initialState Map.empty (\<lambda>p. True)"

definition demoFiles :: "string \<Rightarrow> string option" where
  "demoFiles = [''/w/B.csproj'' \<mapsto> ''<Version>1.0.0</Version>'']"

definition oneFile :: "string \<Rightarrow> string \<Rightarrow> state" where
  "oneFile file content = initialState [file \<mapsto> content] (\<lambda>p. True)"

section \<open>Result aggregation: the changed subset and the version map\<close>

lemma count_list_filter_if:
  "count_list (filter P xs) x = (if P x then count_list xs x else 0)"
  by (induction xs) auto

text \<open>
  Claim C4. For every list of records, the changed projects that \<open>analyzeResults\<close>
  returns are exactly the records of the (test-filtered) project list whose
  \<open>versionChanged\<close> is true: the same records in the same order (a subsequence), each as
  often as it occurs in the project list and none that is unchanged; and \<open>hasChanges\<close>
  holds exactly when that list is not empty.
\<close>

theorem analyzeResults_changedProjects:
  "changedProjects (analyzeResults ps incl) = filter versionChanged (projects (analyzeResults ps incl))
   \<and> projects (analyzeResults ps incl) = (if incl then ps else filter (\<lambda>p. \<not> isTestProject p) ps)
   \<and> subseq (changedProjects (analyzeResults ps incl)) (projects (analyzeResults ps incl))
   \<and> (\<forall>p. count_list (changedProjects (analyzeResults ps incl)) p
            = (if versionChanged p then count_list (projects (analyzeResults ps incl)) p else 0))
   \<and> hasChanges (analyzeResults ps incl) = (changedProjects (analyzeResults ps incl) \<noteq> [])"
  by (simp add: analyzeResults_def Let_def count_list_filter_if)





section \<open>What the manifest mutator and the run leave unchanged\<close>

lemma framed_refl: "framed s s"
  by (simp add: framed_def)

lemma framed_trans: "framed s t \<Longrightarrow> framed t u \<Longrightarrow> framed s u"
  by (simp add: framed_def)

lemma framed_log: "framed s (info m s)" "framed s (warning m s)"
  by (simp_all add: framed_def info_def warning_def)

lemma writeFile_framed: "writeFile q c s = Inr s' \<Longrightarrow> framed s s'"
  by (auto simp: writeFile_def framed_def split: if_splits)

lemma updateProjectFile_frame:
  "updateProjectFile p s = Inr s' \<Longrightarrow> framed s s'"
  unfolding updateProjectFile_def Let_def
  by (auto split: sum.splits option.splits if_splits prod.splits
           intro: framed_log framed_refl framed_trans [OF writeFile_framed framed_log(1)])

lemma writeMrVersionPropsFile_frame:
  "writeMrVersionPropsFile P p s = Inr s' \<Longrightarrow> framed s s'"
  unfolding writeMrVersionPropsFile_def Let_def
  by (auto split: sum.splits option.splits if_splits prod.splits
           intro: framed_log framed_refl framed_trans [OF writeFile_framed framed_log(1)])

lemma tryUpdate_frame:
  "tryUpdate P p up wp s = (s', r) \<Longrightarrow> framed s s'"
  unfolding tryUpdate_def
  by (auto split: sum.splits if_splits
           intro: framed_refl updateProjectFile_frame writeMrVersionPropsFile_frame
                  framed_trans [OF updateProjectFile_frame writeMrVersionPropsFile_frame])

lemma updateProject_frame: "framed s (updateProject P p up wp s)"
proof (cases "tryUpdate P p up wp s")
  case (Pair s' r)
  from tryUpdate_frame [OF Pair] have "framed s s'" .
  with Pair show ?thesis
    by (cases r) (auto simp: updateProject_def intro: framed_trans framed_log)
qed

lemma updateProjects_frame: "framed s (updateProjects P ps up wp s)"
  by (induction ps arbitrary: s) (auto intro: framed_refl framed_trans updateProject_frame)

lemma updateProjects_outputs:
  "outputs (updateProjects P ps up wp s) = outputs s"
  "failed (updateProjects P ps up wp s) = failed s"
  using updateProjects_frame [of s P ps up wp] by (simp_all add: framed_def)

lemma setOutputs_cong:
  "outputs t = outputs t' \<Longrightarrow> outputs (setVersionOutputs ps t) = outputs (setVersionOutputs ps t')"
  "outputs t = outputs t' \<Longrightarrow> outputs (setResultOutputs P a t) = outputs (setResultOutputs P a t')"
  by (simp_all add: setVersionOutputs_def setResultOutputs_def setOutput_def Let_def split: list.splits)

lemma setOutputs_failed:
  "failed (setVersionOutputs ps t) = failed t"
  "failed (setResultOutputs P a t) = failed t"
  by (simp_all add: setVersionOutputs_def setResultOutputs_def setOutput_def Let_def split: list.splits)

lemma announce_frame: "framed s (announce inp fs s)"
  by (simp add: announce_def Let_def framed_def info_def)

lemma publish_outputs:
  "outputs (publish P inp results a s) = outputs (setVersionOutputs (projects a) (setResultOutputs P a s))"
  "failed (publish P inp results a s) = failed s"
  by (simp_all add: publish_def Let_def info_def updateProjects_outputs setOutputs_failed
        setVersionOutputs_def setResultOutputs_def setOutput_def split: list.splits)

lemma run_reaches_outputs:
  assumes calc: "calculateAll oracle projectFiles = Inr results"
    and ok: "failOnNoChanges inp \<Longrightarrow> projectFiles \<noteq> [] \<and> hasChanges (analyzeResults results (includeTestProjects inp))"
  shows "outputs (run P inp projectFiles oracle s) =
           outputs (setVersionOutputs (projects (analyzeResults results (includeTestProjects inp)))
                     (setResultOutputs P (analyzeResults results (includeTestProjects inp)) s))"
    and "failed (run P inp projectFiles oracle s) = failed s"
proof -
  have n1: "\<not> (length projectFiles = 0 \<and> failOnNoChanges inp)" using ok by auto
  have n2: "\<not> (failOnNoChanges inp \<and> hasChanges (analyzeResults results (includeTestProjects inp)) = False)"
    using ok by auto
  define s4 where "s4 = (if length projectFiles = 0
                      then warning ''No project files found matching the pattern'' (announce inp projectFiles s) else announce inp projectFiles s)"
  define s5 where "s5 = s4\<lparr>logs := logs s4 @ analyzeResultsLog results (includeTestProjects inp)\<rparr>"
  have r: "run P inp projectFiles oracle s = publish P inp results (analyzeResults results (includeTestProjects inp)) s5"
    by (cases "failOnNoChanges inp"; cases "projectFiles = []")
       (use ok calc in \<open>simp_all add: run_def Let_def s5_def s4_def\<close>)
  have f: "framed s s5"
    using announce_frame [of s inp projectFiles]
    by (auto simp: s5_def s4_def framed_def warning_def)
  show "outputs (run P inp projectFiles oracle s) =
           outputs (setVersionOutputs (projects (analyzeResults results (includeTestProjects inp)))
                     (setResultOutputs P (analyzeResults results (includeTestProjects inp)) s))"
    unfolding r publish_outputs
    by (rule setOutputs_cong, rule setOutputs_cong) (use f in \<open>simp add: framed_def\<close>)
  show "failed (run P inp projectFiles oracle s) = failed s"
    unfolding r publish_outputs using f by (simp add: framed_def)
qed

section \<open>The component outputs of the run\<close>






section \<open>The two decompositions of a version\<close>

lemma splitOn_not_Nil [simp]: "splitOn P s \<noteq> []"
  by (induction s) (auto split: list.splits)

lemma splitOn_none: "\<forall>c \<in> set a. \<not> P c \<Longrightarrow> splitOn P a = [a]"
  by (induction a) auto

lemma splitOn_append_sep:
  "\<forall>c \<in> set a. \<not> P c \<Longrightarrow> P d \<Longrightarrow> splitOn P (a @ d # rest) = a # splitOn P rest"
  by (induction a) auto

lemma joinStr_Cons: "ys \<noteq> [] \<Longrightarrow> joinStr sep (x # ys) = x @ sep @ joinStr sep ys"
  by (cases ys) auto

lemma joinStr_splitOn:
  "\<forall>c \<in> set s. P c \<longrightarrow> c = d \<Longrightarrow> joinStr [d] (splitOn P s) = s"
proof (induction s)
  case Nil
  show ?case by simp
next
  case (Cons c cs)
  then have IH: "joinStr [d] (splitOn P cs) = cs" by simp
  show ?case
  proof (cases "P c")
    case True
    with Cons.prems have "c = d" by simp
    with True IH show ?thesis by (simp add: joinStr_Cons)
  next
    case False
    obtain x xs where sp: "splitOn P cs = x # xs"
      by (cases "splitOn P cs") auto
    with IH have "joinStr [d] (x # xs) = cs" by simp
    then have "joinStr [d] ((c # x) # xs) = c # cs"
      by (cases xs) auto
    with False sp show ?thesis by simp
  qed
qed

lemma isDigit_not_sep: "isDigit c \<Longrightarrow> \<not> (c = CHR ''.'' \<or> c = CHR ''-'')"
  by (auto simp: isDigit_def)

text \<open>What a match of the version pattern says about the string.\<close>

lemma versionMatch_SomeD:
  assumes "versionMatch v = Some (major, minor, patch, pre)"
  shows "v = major @ ''.'' @ minor @ ''.'' @ patch @ (case pre of None \<Rightarrow> [] | Some x \<Rightarrow> ''-'' @ x)"
    and "major \<noteq> []" and "minor \<noteq> []" and "patch \<noteq> []"
    and "list_all isDigit major" and "list_all isDigit minor" and "list_all isDigit patch"
    and "pre \<noteq> Some []" and "list_all (\<lambda>c. \<not> isLineTerminator c) (orEmpty pre)"
proof -
  define r1 where "r1 = dropWhile isDigit v"
  have v: "v = takeWhile isDigit v @ r1" by (simp add: r1_def)
  from assms obtain r2 where r1: "r1 = CHR ''.'' # r2" and major: "major = takeWhile isDigit v" "major \<noteq> []"
    by (auto simp: versionMatch_def Let_def r1_def split: list.splits if_splits)
  define r3 where "r3 = dropWhile isDigit r2"
  from assms r1 obtain r4 where r3: "r3 = CHR ''.'' # r4" and minor: "minor = takeWhile isDigit r2" "minor \<noteq> []"
    by (auto simp: versionMatch_def Let_def r1_def r3_def split: list.splits if_splits)
  define r5 where "r5 = dropWhile isDigit r4"
  from assms r1 r3 have patch: "patch = takeWhile isDigit r4" "patch \<noteq> []"
    and r5: "r5 = (case pre of None \<Rightarrow> [] | Some x \<Rightarrow> ''-'' @ x)"
    and pre: "pre \<noteq> Some []" "list_all (\<lambda>c. \<not> isLineTerminator c) (orEmpty pre)"
    by (auto simp: versionMatch_def Let_def r1_def r3_def r5_def orEmpty_def split: list.splits if_splits)
  have "r2 = minor @ r3" by (simp add: minor r3_def)
  moreover have "r4 = patch @ r5" by (simp add: patch r5_def)
  ultimately show "v = major @ ''.'' @ minor @ ''.'' @ patch @ (case pre of None \<Rightarrow> [] | Some x \<Rightarrow> ''-'' @ x)"
    using v r1 r3 r5 major by simp
  show "major \<noteq> []" "minor \<noteq> []" "patch \<noteq> []" by fact+
  show "list_all isDigit major" "list_all isDigit minor" "list_all isDigit patch"
    by (simp_all add: major minor patch list_all_iff) (auto dest: set_takeWhileD)
  show "pre \<noteq> Some []" "list_all (\<lambda>c. \<not> isLineTerminator c) (orEmpty pre)" by fact+
qed

lemma versionParts_of_match:
  assumes m: "versionMatch v = Some (major, minor, patch, pre)"
  shows "versionParts v = [major, minor, patch] @ (case pre of None \<Rightarrow> [] | Some x \<Rightarrow> versionParts x)"
proof -
  note d = versionMatch_SomeD [OF m]
  have nosep: "\<forall>c \<in> set major. \<not> (c = CHR ''.'' \<or> c = CHR ''-'')"
    "\<forall>c \<in> set minor. \<not> (c = CHR ''.'' \<or> c = CHR ''-'')"
    "\<forall>c \<in> set patch. \<not> (c = CHR ''.'' \<or> c = CHR ''-'')"
    using d(5,6,7) isDigit_not_sep by (auto simp: list_all_iff)
  show ?thesis
  proof (cases pre)
    case None
    with d(1) have "v = major @ CHR ''.'' # minor @ CHR ''.'' # patch" by simp
    then show ?thesis
      using nosep None by (simp add: versionParts_def splitOn_append_sep splitOn_none)
  next
    case (Some x)
    with d(1) have "v = major @ CHR ''.'' # minor @ CHR ''.'' # patch @ CHR ''-'' # x" by simp
    then show ?thesis
      using nosep Some by (simp add: versionParts_def splitOn_append_sep)
  qed
qed

lemma components_of_match:
  assumes m: "versionMatch v = Some (major, minor, patch, pre)"
    and h: "CHR ''-'' \<notin> set (orEmpty pre)"
  shows "partOr0 (versionParts v) 0 = major" "partOr0 (versionParts v) 1 = minor"
    "partOr0 (versionParts v) 2 = patch" "prereleaseOf (versionParts v) = orEmpty pre"
proof -
  note d = versionMatch_SomeD [OF m]
  note vp = versionParts_of_match [OF m]
  show "partOr0 (versionParts v) 0 = major" "partOr0 (versionParts v) 1 = minor"
    "partOr0 (versionParts v) 2 = patch"
    using d(2,3,4) by (simp_all add: vp partOr0_def)
  show "prereleaseOf (versionParts v) = orEmpty pre"
  proof (cases pre)
    case None
    then show ?thesis by (simp add: vp prereleaseOf_def orEmpty_def)
  next
    case (Some x)
    with h have "\<forall>c \<in> set x. (c = CHR ''.'' \<or> c = CHR ''-'') \<longrightarrow> c = CHR ''.''"
      by (auto simp: orEmpty_def)
    then have "joinStr ''.'' (versionParts x) = x"
      unfolding versionParts_def by (rule joinStr_splitOn)
    moreover have "versionParts x \<noteq> []" by (simp add: versionParts_def)
    ultimately show ?thesis using Some by (simp add: vp prereleaseOf_def orEmpty_def)
  qed
qed


lemma outputOf_setVersionOutputs_Cons:
  "outputOf (setVersionOutputs (p # ps) t) ''version'' = Some (Text (version p))"
  "outputOf (setVersionOutputs (p # ps) t) ''major'' = Some (Text (partOr0 (versionParts (version p)) 0))"
  "outputOf (setVersionOutputs (p # ps) t) ''minor'' = Some (Text (partOr0 (versionParts (version p)) 1))"
  "outputOf (setVersionOutputs (p # ps) t) ''patch'' = Some (Text (partOr0 (versionParts (version p)) 2))"
  "outputOf (setVersionOutputs (p # ps) t) ''prerelease'' = Some (Text (prereleaseOf (versionParts (version p))))"
  by (simp_all add: outputOf_def setVersionOutputs_def setOutput_def Let_def)

lemma outputOf_setVersionOutputs_Nil:
  "outputOf (setVersionOutputs [] t) ''version'' = Some (Text ''0.1.0'')"
  "outputOf (setVersionOutputs [] t) ''major'' = Some (Text ''0'')"
  "outputOf (setVersionOutputs [] t) ''minor'' = Some (Text ''1'')"
  "outputOf (setVersionOutputs [] t) ''patch'' = Some (Text ''0'')"
  "outputOf (setVersionOutputs [] t) ''prerelease'' = Some (Text [])"
  by (simp_all add: outputOf_def setVersionOutputs_def setOutput_def Let_def)

lemma outputOf_cong: "outputs t = outputs t' \<Longrightarrow> outputOf t = outputOf t'"
  by (simp add: outputOf_def fun_eq_iff)

text \<open>
  Claim C1, amended. Where the run reaches its outputs (the oracle answered for every
  project file and fail-on-no-changes did not stop the run): with an empty project list
  the component outputs are version \<open>0.1.0\<close>, major \<open>0\<close>, minor \<open>1\<close>, patch \<open>0\<close> and an
  empty prerelease; and when the first project of the list is a changed one (so it is
  the first changed project) and its version matches the version pattern with a
  prerelease part free of hyphens, the outputs are that version and its major, minor,
  patch and prerelease parts (the empty string when there is no prerelease part).
\<close>

theorem run_component_outputs:
  assumes calc: "calculateAll oracle projectFiles = Inr results"
    and ok: "failOnNoChanges inp \<Longrightarrow>
               projectFiles \<noteq> [] \<and> hasChanges (analyzeResults results (includeTestProjects inp))"
  shows "(projects (analyzeResults results (includeTestProjects inp)) = [] \<longrightarrow>
            outputOf (run P inp projectFiles oracle s) ''version'' = Some (Text ''0.1.0'')
          \<and> outputOf (run P inp projectFiles oracle s) ''major'' = Some (Text ''0'')
          \<and> outputOf (run P inp projectFiles oracle s) ''minor'' = Some (Text ''1'')
          \<and> outputOf (run P inp projectFiles oracle s) ''patch'' = Some (Text ''0'')
          \<and> outputOf (run P inp projectFiles oracle s) ''prerelease'' = Some (Text []))
       \<and> (\<forall>p ps major minor patch pre.
            projects (analyzeResults results (includeTestProjects inp)) = p # ps
            \<and> versionChanged p
            \<and> versionMatch (version p) = Some (major, minor, patch, pre)
            \<and> CHR ''-'' \<notin> set (orEmpty pre) \<longrightarrow>
              outputOf (run P inp projectFiles oracle s) ''version'' = Some (Text (version p))
            \<and> outputOf (run P inp projectFiles oracle s) ''major'' = Some (Text major)
            \<and> outputOf (run P inp projectFiles oracle s) ''minor'' = Some (Text minor)
            \<and> outputOf (run P inp projectFiles oracle s) ''patch'' = Some (Text patch)
            \<and> outputOf (run P inp projectFiles oracle s) ''prerelease'' = Some (Text (orEmpty pre)))"
proof -
  let ?a = "analyzeResults results (includeTestProjects inp)"
  have o: "outputOf (run P inp projectFiles oracle s) =
           outputOf (setVersionOutputs (projects ?a) (setResultOutputs P ?a s))"
    using run_reaches_outputs(1) [OF calc ok] by (rule outputOf_cong)
  show ?thesis
    unfolding o
    using components_of_match
    by (auto simp: outputOf_setVersionOutputs_Cons outputOf_setVersionOutputs_Nil
             simp del: One_nat_def)
qed

theorem run_component_outputs_witness:
  "outputOf (run demoPath demoInputs [''/w/A.csproj'']
       (\<lambda>f. Inr (demoProject ''A'' f ''1.2.3-beta.1'' True)) demoState) ''version'' = Some (Text ''1.2.3-beta.1'')
   \<and> outputOf (run demoPath demoInputs [''/w/A.csproj'']
       (\<lambda>f. Inr (demoProject ''A'' f ''1.2.3-beta.1'' True)) demoState) ''major'' = Some (Text ''1'')
   \<and> outputOf (run demoPath demoInputs [''/w/A.csproj'']
       (\<lambda>f. Inr (demoProject ''A'' f ''1.2.3-beta.1'' True)) demoState) ''minor'' = Some (Text ''2'')
   \<and> outputOf (run demoPath demoInputs [''/w/A.csproj'']
       (\<lambda>f. Inr (demoProject ''A'' f ''1.2.3-beta.1'' True)) demoState) ''patch'' = Some (Text ''3'')
   \<and> outputOf (run demoPath demoInputs [''/w/A.csproj'']
       (\<lambda>f. Inr (demoProject ''A'' f ''1.2.3-beta.1'' True)) demoState) ''prerelease'' = Some (Text ''beta.1'')"
proof -
  let ?p = "demoProject ''A'' ''/w/A.csproj'' ''1.2.3-beta.1'' True"
  have calc: "calculateAll (\<lambda>f. Inr (demoProject ''A'' f ''1.2.3-beta.1'' True)) [''/w/A.csproj''] = Inr [?p]"
    by simp
  have ok: "failOnNoChanges demoInputs \<Longrightarrow>
      [''/w/A.csproj''] \<noteq> [] \<and> hasChanges (analyzeResults [?p] (includeTestProjects demoInputs))"
    by (simp add: demoInputs_def)
  have a: "projects (analyzeResults [?p] (includeTestProjects demoInputs)) = [?p]"
    by (simp add: analyzeResults_def Let_def demoInputs_def demoProject_def)
  have m: "versionMatch (version ?p) = Some (''1'', ''2'', ''3'', Some ''beta.1'')"
    by (simp add: versionMatch_def Let_def demoProject_def isDigit_def isLineTerminator_def)
  have c: "versionChanged ?p" by (simp add: demoProject_def)
  have h: "CHR ''-'' \<notin> set (orEmpty (Some ''beta.1''))" by (simp add: orEmpty_def)
  from run_component_outputs [OF calc ok, of demoPath demoState] a m c h
  show ?thesis by (simp add: orEmpty_def demoProject_def)
qed

theorem run_component_outputs_counterexample:
  "outputOf (run demoPath demoInputs [] (\<lambda>f. Inl (OracleError [])) demoState) ''minor'' = Some (Text ''1'')
   \<and> outputOf (run demoPath demoInputs [] (\<lambda>f. Inl (OracleError [])) demoState) ''minor'' \<noteq> Some (Text ''0'')
   \<and> outputOf (run demoPath demoInputs [''/w/A.csproj'', ''/w/B.csproj'']
        (\<lambda>f. Inr (if f = ''/w/A.csproj'' then demoProject ''A'' f ''1.0.0'' False
                   else demoProject ''B'' f ''2.0.0'' True)) demoState) ''version'' = Some (Text ''1.0.0'')"
proof -
  let ?A = "demoProject ''A'' ''/w/A.csproj'' ''1.0.0'' False"
  let ?B = "demoProject ''B'' ''/w/B.csproj'' ''2.0.0'' True"
  let ?or = "\<lambda>f. Inr (if f = ''/w/A.csproj'' then demoProject ''A'' f ''1.0.0'' False
                   else demoProject ''B'' f ''2.0.0'' True)"
  have c0: "calculateAll (\<lambda>f. Inl (OracleError [])) [] = Inr []" by simp
  have ok0: "failOnNoChanges demoInputs \<Longrightarrow>
      [] \<noteq> [] \<and> hasChanges (analyzeResults [] (includeTestProjects demoInputs))"
    by (simp add: demoInputs_def)
  have "outputOf (run demoPath demoInputs [] (\<lambda>f. Inl (OracleError [])) demoState) ''minor'' = Some (Text ''1'')"
    using run_reaches_outputs(1) [OF c0 ok0, of demoPath demoState, THEN outputOf_cong]
    by (simp add: analyzeResults_def Let_def outputOf_setVersionOutputs_Nil)
  moreover
  have c1: "calculateAll ?or [''/w/A.csproj'', ''/w/B.csproj''] = Inr [?A, ?B]" by simp
  have ok1: "failOnNoChanges demoInputs \<Longrightarrow>
      [''/w/A.csproj'', ''/w/B.csproj''] \<noteq> [] \<and> hasChanges (analyzeResults [?A, ?B] (includeTestProjects demoInputs))"
    by (simp add: demoInputs_def)
  have "outputOf (run demoPath demoInputs [''/w/A.csproj'', ''/w/B.csproj''] ?or demoState) ''version'' = Some (Text ''1.0.0'')"
    using run_reaches_outputs(1) [OF c1 ok1, of demoPath demoState, THEN outputOf_cong]
    by (simp add: analyzeResults_def Let_def demoInputs_def demoProject_def outputOf_setVersionOutputs_Cons)
  ultimately show ?thesis by simp
qed

text \<open>
  Claim C5, evaluated at the version \<open>1.0.0-rc-1\<close>: the version matches the pattern
  with the prerelease part \<open>rc-1\<close>, the run emits the prerelease \<open>rc.1\<close>, and
  rejoining the emitted components gives \<open>1.0.0-rc.1\<close>, not the version.
\<close>

theorem run_prerelease_hyphen:
  "versionMatch ''1.0.0-rc-1'' = Some (''1'', ''0'', ''0'', Some ''rc-1'')
   \<and> outputOf (run demoPath demoInputs [''/w/A.csproj'']
        (\<lambda>f. Inr (demoProject ''A'' f ''1.0.0-rc-1'' True)) demoState) ''prerelease'' = Some (Text ''rc.1'')
   \<and> rejoin ''1'' ''0'' ''0'' ''rc.1'' = ''1.0.0-rc.1''"
proof -
  let ?p = "demoProject ''A'' ''/w/A.csproj'' ''1.0.0-rc-1'' True"
  have calc: "calculateAll (\<lambda>f. Inr (demoProject ''A'' f ''1.0.0-rc-1'' True)) [''/w/A.csproj''] = Inr [?p]"
    by simp
  have ok: "failOnNoChanges demoInputs \<Longrightarrow>
      [''/w/A.csproj''] \<noteq> [] \<and> hasChanges (analyzeResults [?p] (includeTestProjects demoInputs))"
    by (simp add: demoInputs_def)
  have "outputOf (run demoPath demoInputs [''/w/A.csproj'']
        (\<lambda>f. Inr (demoProject ''A'' f ''1.0.0-rc-1'' True)) demoState) ''prerelease'' = Some (Text ''rc.1'')"
    using run_reaches_outputs(1) [OF calc ok, of demoPath demoState, THEN outputOf_cong]
    by (simp add: analyzeResults_def Let_def demoInputs_def demoProject_def outputOf_setVersionOutputs_Cons
          versionParts_def prereleaseOf_def)
  moreover have "versionMatch ''1.0.0-rc-1'' = Some (''1'', ''0'', ''0'', Some ''rc-1'')"
    by (simp add: versionMatch_def Let_def isDigit_def isLineTerminator_def)
  ultimately show ?thesis by (simp add: rejoin_def)
qed

section \<open>The companion file\<close>




lemma info_logs: "logs (info m s) = logs s @ [Info m]" "files (info m s) = files s"
  by (simp_all add: info_def)

lemma warning_logs: "logs (warning m s) = logs s @ [Warning m]" "files (warning m s) = files s"
  by (simp_all add: warning_def)



section \<open>Failure containment in the manifest mutator\<close>

lemma updateProjects_append:
  "updateProjects P (ps @ qs) up wp s = updateProjects P qs up wp (updateProjects P ps up wp s)"
  by (induction ps arbitrary: s) simp_all

lemma writeFile_logs: "writeFile q c s = Inr s' \<Longrightarrow> logs s' = logs s"
  by (auto simp: writeFile_def split: if_splits)

lemma updateProjectFile_logs:
  "updateProjectFile p s = Inr s' \<Longrightarrow> prefix (logs s) (logs s')"
  unfolding updateProjectFile_def Let_def
  by (auto simp: info_logs warning_logs dest!: writeFile_logs
           split: sum.splits option.splits if_splits prod.splits)

lemma writeMrVersionPropsFile_logs:
  "writeMrVersionPropsFile P p s = Inr s' \<Longrightarrow> prefix (logs s) (logs s')"
  unfolding writeMrVersionPropsFile_def
  by (auto simp: info_logs warning_logs dest!: writeFile_logs
           split: sum.splits option.splits if_splits prod.splits)

lemma tryUpdate_logs:
  "tryUpdate P p up wp s = (s', r) \<Longrightarrow> prefix (logs s) (logs s')"
  unfolding tryUpdate_def
  by (auto split: sum.splits if_splits
           dest: updateProjectFile_logs writeMrVersionPropsFile_logs
           intro: prefix_order.trans [OF updateProjectFile_logs writeMrVersionPropsFile_logs])

lemma updateProject_logs: "prefix (logs s) (logs (updateProject P p up wp s))"
proof (cases "tryUpdate P p up wp s")
  case (Pair s' r)
  from tryUpdate_logs [OF Pair] have "prefix (logs s) (logs s')" .
  with Pair show ?thesis
    by (cases r) (auto simp: updateProject_def warning_logs intro: prefix_order.trans)
qed

lemma updateProjects_logs: "prefix (logs s) (logs (updateProjects P ps up wp s))"
proof (induction ps arbitrary: s)
  case Nil
  show ?case by simp
next
  case (Cons p ps)
  show ?case
    using prefix_order.trans [OF updateProject_logs Cons.IH] by simp
qed

text \<open>
  Claim C7. Whatever records come before and after: when the update of one record ends
  with an error, \<open>updateProjects\<close> logs a warning that names the project and carries
  the error's message, goes on with the remaining records from the state reached, and
  does not fail the run; the warning is in the log at the end.
\<close>

theorem updateProjects_failure_containment:
  assumes "tryUpdate P p up wp (updateProjects P ps up wp s) = (t, Some e)"
  shows "updateProjects P (ps @ p # qs) up wp s =
           updateProjects P qs up wp
             (warning (''Failed to update project '' @ project p @ '': '' @ errorMessage e) t)
         \<and> Warning (''Failed to update project '' @ project p @ '': '' @ errorMessage e)
             \<in> set (logs (updateProjects P (ps @ p # qs) up wp s))
         \<and> failed (updateProjects P (ps @ p # qs) up wp s) = failed s"
proof -
  define msg where "msg = ''Failed to update project '' @ project p @ '': '' @ errorMessage e"
  have step: "updateProject P p up wp (updateProjects P ps up wp s) = warning msg t"
    using assms by (simp add: updateProject_def msg_def)
  have eq: "updateProjects P (ps @ p # qs) up wp s = updateProjects P qs up wp (warning msg t)"
    by (simp add: updateProjects_append step)
  have "Warning msg \<in> set (logs (warning msg t))"
    by (simp add: warning_logs)
  then have "Warning msg \<in> set (logs (updateProjects P qs up wp (warning msg t)))"
    using updateProjects_logs [of "warning msg t" P qs up wp] by (auto dest: set_mono_prefix)
  then have mem: "Warning msg \<in> set (logs (updateProjects P (ps @ p # qs) up wp s))"
    by (simp only: eq)
  have f: "failed (updateProjects P (ps @ p # qs) up wp s) = failed s"
    by (rule updateProjects_outputs)
  show ?thesis
    unfolding msg_def [symmetric] by (intro conjI) (fact eq, fact mem, fact f)
qed

lemma replaceElement_demo:
  "replaceElement ''Version'' ''<Version>2.0.0</Version>'' ''<Version>1.0.0</Version>'' = ''<Version>2.0.0</Version>''"
  by (simp add: replaceElement_def matchElement_def openTag_def closeTag_def isLineTerminator_def)

theorem updateProjects_failure_containment_witness:
  "files (updateProjects demoPath
            [demoProject ''A'' ''/w/A.csproj'' ''2.0.0'' True, demoProject ''B'' ''/w/B.csproj'' ''2.0.0'' True]
            True False (initialState demoFiles (\<lambda>p. True))) ''/w/B.csproj'' = Some ''<Version>2.0.0</Version>''
   \<and> Warning (''Failed to update project A: ENOENT: no such file or directory, open ''
              @ [CHR 0x27] @ ''/w/A.csproj'' @ [CHR 0x27])
        \<in> set (logs (updateProjects demoPath
            [demoProject ''A'' ''/w/A.csproj'' ''2.0.0'' True, demoProject ''B'' ''/w/B.csproj'' ''2.0.0'' True]
            True False (initialState demoFiles (\<lambda>p. True))))"
proof -
  let ?A = "demoProject ''A'' ''/w/A.csproj'' ''2.0.0'' True"
  let ?B = "demoProject ''B'' ''/w/B.csproj'' ''2.0.0'' True"
  let ?s = "initialState demoFiles (\<lambda>p. True)"
  have t: "tryUpdate demoPath ?A True False (updateProjects demoPath [] True False ?s) = (?s, Some (ENOENT ''/w/A.csproj''))"
    by (simp add: tryUpdate_def updateProjectFile_def readFile_def initialState_def demoFiles_def
          demoProject_def)
  have m: "versionMatch ''2.0.0'' = Some (''2'', ''0'', ''0'', None)"
    by (simp add: versionMatch_def Let_def isDigit_def isLineTerminator_def)
  have u: "updatedContentOf ''2.0.0'' ''2'' ''0'' ''0'' None ''<Version>1.0.0</Version>'' = ''<Version>2.0.0</Version>''"
    by (simp add: updatedContentOf_def Let_def replaceElement_demo truthy_def)
       (simp add: replaceElement_def matchElement_def openTag_def closeTag_def)
  have b: "files (updateProjects demoPath [?B] True False
             (warning (''Failed to update project '' @ project ?A @ '': '' @ errorMessage (ENOENT ''/w/A.csproj'')) ?s))
             ''/w/B.csproj'' = Some ''<Version>2.0.0</Version>''"
    by (simp add: updateProject_def tryUpdate_def updateProjectFile_def readFile_def writeFile_def
          initialState_def demoFiles_def demoProject_def warning_def info_def m u)
  have msg: "''Failed to update project '' @ project ?A @ '': '' @ errorMessage (ENOENT ''/w/A.csproj'')
      = (''Failed to update project A: ENOENT: no such file or directory, open ''
              @ [CHR 0x27] @ ''/w/A.csproj'' @ [CHR 0x27])"
    by (simp add: errorMessage_def demoProject_def)
  note th = updateProjects_failure_containment [OF t, of "[?B]", unfolded append_Nil]
  from th have eq: "updateProjects demoPath [?A, ?B] True False ?s =
      updateProjects demoPath [?B] True False
        (warning (''Failed to update project '' @ project ?A @ '': '' @ errorMessage (ENOENT ''/w/A.csproj'')) ?s)"
    by (rule conjunct1)
  from th have mem: "Warning (''Failed to update project '' @ project ?A @ '': '' @ errorMessage (ENOENT ''/w/A.csproj''))
        \<in> set (logs (updateProjects demoPath [?A, ?B] True False ?s))"
    by (rule conjunct2 [THEN conjunct1])
  have "files (updateProjects demoPath [?A, ?B] True False ?s) ''/w/B.csproj'' = Some ''<Version>2.0.0</Version>''"
    by (simp only: eq b)
  then show ?thesis using mem [unfolded msg] by (rule conjI)
qed






section \<open>Replacement on chunks\<close>

lemma fromLast_subset: "set (fromLast Cls us) \<subseteq> set us"
  by (induction us) auto

lemma fromLast_shape:
  "list_ex Cls us \<Longrightarrow> \<exists>y B. fromLast Cls us = y # B \<and> Cls y \<and> \<not> list_ex Cls B"
  by (induction us) (auto simp: list_ex_iff)

lemma fromLast_fixed: "Cls y \<Longrightarrow> \<not> list_ex Cls B \<Longrightarrow> fromLast Cls (y # B) = y # B"
  by simp

lemma substChunks_subset: "set (substChunks Opn Cls w us) \<subseteq> insert w (set us)"
  by (induction us) (auto dest: subsetD [OF fromLast_subset])

lemma substChunks_noClose: "\<not> list_ex Cls us \<Longrightarrow> substChunks Opn Cls w us = us"
  by (induction us) auto

lemma substChunks_ex:
  "\<not> Q w \<Longrightarrow> list_ex Q (substChunks Opn Cls w us) \<Longrightarrow> list_ex Q us"
  using substChunks_subset [of Opn Cls w us] by (auto simp: list_ex_iff)

lemma substChunks_idem:
  assumes "Opn w" "\<not> Cls w"
  shows "substChunks Opn Cls w (substChunks Opn Cls w us) = substChunks Opn Cls w us"
proof (induction us)
  case Nil
  show ?case by simp
next
  case (Cons u us)
  show ?case
  proof (cases "Opn u \<and> list_ex Cls us")
    case True
    then obtain y B where s: "fromLast Cls us = y # B" "Cls y" "\<not> list_ex Cls B"
      using fromLast_shape by blast
    have a: "substChunks Opn Cls w (u # us) = w # y # B" using True s by simp
    have "substChunks Opn Cls w (w # y # B) = w # y # B" using assms s by simp
    then show ?thesis by (simp only: a)
  next
    case False
    have a: "substChunks Opn Cls w (u # us) = u # substChunks Opn Cls w us"
      using False by auto
    have "\<not> (Opn u \<and> list_ex Cls (substChunks Opn Cls w us))"
      using False substChunks_ex [of Cls w Opn Cls us] assms(2) by auto
    then have "substChunks Opn Cls w (u # substChunks Opn Cls w us)
        = u # substChunks Opn Cls w (substChunks Opn Cls w us)" by auto
    then show ?thesis by (simp only: a Cons.IH)
  qed
qed

lemma stable_tail:
  assumes ex: "\<And>u. Opn u \<Longrightarrow> \<not> Cls u"
    and st: "substChunks Opn Cls w (u # us) = u # us"
  shows "substChunks Opn Cls w us = us"
proof (cases "Opn u \<and> list_ex Cls us")
  case False
  with st show ?thesis by simp
next
  case True
  with st have "fromLast Cls us = us" by simp
  with True obtain y B where s: "us = y # B" "Cls y" "\<not> list_ex Cls B"
    using fromLast_shape [of Cls us] by auto
  then have "\<not> Opn y" using ex by blast
  with s show ?thesis by (simp add: substChunks_noClose)
qed

lemma stable_suffix:
  assumes ex: "\<And>u. Opn u \<Longrightarrow> \<not> Cls u"
    and st: "substChunks Opn Cls w us = us"
  shows "substChunks Opn Cls w (drop k us) = drop k us"
  using st
proof (induction us arbitrary: k)
  case Nil
  show ?case by simp
next
  case (Cons u us)
  have "substChunks Opn Cls w us = us" using ex Cons.prems by (rule stable_tail)
  with Cons.IH show ?case using Cons.prems by (cases k) simp_all
qed

lemma fromLast_drop: "\<exists>k. fromLast Cls us = drop k us"
proof (induction us)
  case Nil
  show ?case by simp
next
  case (Cons u us)
  then obtain k where k: "fromLast Cls us = drop k us" by blast
  show ?case
  proof (cases "list_ex Cls us")
    case True
    with k have "fromLast Cls (u # us) = drop (Suc k) (u # us)" by simp
    then show ?thesis by blast
  next
    case False
    show ?thesis
    proof (cases "Cls u")
      case True
      with False have "fromLast Cls (u # us) = drop 0 (u # us)" by simp
      then show ?thesis by blast
    next
      case F: False
      with False have "fromLast Cls (u # us) = drop (Suc (length us)) (u # us)" by simp
      then show ?thesis by blast
    qed
  qed
qed

text \<open>A replacement for another element keeps a list stable for this one.\<close>

lemma substChunks_preserves:
  assumes oc: "\<And>u. Opn u \<Longrightarrow> \<not> Cls u"
    and oo: "\<And>u. Opn' u \<Longrightarrow> \<not> Opn u"
    and co: "\<And>u. Cls u \<Longrightarrow> \<not> Opn' u"
    and w': "\<not> Opn w'" "\<not> Cls w'"
    and st: "substChunks Opn Cls w us = us"
  shows "substChunks Opn Cls w (substChunks Opn' Cls' w' us) = substChunks Opn' Cls' w' us"
  using st
proof (induction us)
  case Nil
  show ?case by simp
next
  case (Cons u us)
  have tl: "substChunks Opn Cls w us = us" using oc Cons.prems by (rule stable_tail)
  show ?case
  proof (cases "Opn' u \<and> list_ex Cls' us")
    case True
    obtain k where k: "fromLast Cls' us = drop k us" using fromLast_drop by blast
    have f: "substChunks Opn Cls w (fromLast Cls' us) = fromLast Cls' us"
      unfolding k using oc tl by (rule stable_suffix)
    have a: "substChunks Opn' Cls' w' (u # us) = w' # fromLast Cls' us" using True by simp
    have "substChunks Opn Cls w (w' # fromLast Cls' us) = w' # fromLast Cls' us"
      using w' f by simp
    then show ?thesis by (simp only: a)
  next
    case False
    have a: "substChunks Opn' Cls' w' (u # us) = u # substChunks Opn' Cls' w' us"
      using False by auto
    show ?thesis
    proof (cases "Opn u \<and> list_ex Cls us")
      case F2: False
      then have "\<not> (Opn u \<and> list_ex Cls (substChunks Opn' Cls' w' us))"
        using substChunks_ex [of Cls w' Opn' Cls' us] w'(2) by auto
      then have "substChunks Opn Cls w (u # substChunks Opn' Cls' w' us)
          = u # substChunks Opn Cls w (substChunks Opn' Cls' w' us)" by auto
      then show ?thesis by (simp only: a Cons.IH [OF tl])
    next
      case True
      with Cons.prems have uw: "u = w" and fl: "fromLast Cls us = us" by simp_all
      from True fl obtain y B where s: "us = y # B" "Cls y" "\<not> list_ex Cls B"
        using fromLast_shape [of Cls us] by auto
      have ny: "\<not> Opn' y" using s(2) co by blast
      have nB: "\<not> list_ex Cls (substChunks Opn' Cls' w' B)"
        using s(3) substChunks_ex [of Cls w' Opn' Cls' B] w'(2) by auto
      have b: "substChunks Opn' Cls' w' us = y # substChunks Opn' Cls' w' B"
        using s(1) ny by simp
      have "substChunks Opn Cls w (u # y # substChunks Opn' Cls' w' B) = u # y # substChunks Opn' Cls' w' B"
        using True uw s(2) nB by simp
      then show ?thesis by (simp only: a b)
    qed
  qed
qed

section \<open>The regular-expression replacement, chunk by chunk\<close>

lemma flat_simps [simp]: "flat [] = []" "flat (u # us) = CHR ''<'' # u @ flat us"
  by (simp_all add: flat_def)

lemma flat_start: "flat us = [] \<or> hd (flat us) = CHR ''<''"
  by (cases us) simp_all

lemma plain_simps [simp]:
  "plain []"
  "plain (c # t) = (c \<noteq> CHR ''<'' \<and> \<not> isLineTerminator c \<and> plain t)"
  "plain (t @ t') = (plain t \<and> plain t')"
  by (auto simp: plain_def)

lemma plain_drop: "plain t \<Longrightarrow> plain (drop k t)"
  by (auto simp: plain_def list_all_iff dest: in_set_dropD)

lemma getSubstitution_plain:
  "CHR ''$'' \<notin> set r \<Longrightarrow> getSubstitution m p f r = r"
  by (induction m p f r rule: getSubstitution.induct) auto

lemma prefix_seam:
  assumes "CHR ''<'' \<notin> set t" and "S = [] \<or> hd S = CHR ''<''"
  shows "prefix t (u @ S) = prefix t u"
proof
  assume "prefix t (u @ S)"
  then consider "prefix t u" | w where "t = u @ w" "prefix w S" "w \<noteq> []"
    unfolding prefix_append by (metis append_Nil2 prefix_order.refl)
  then show "prefix t u"
  proof cases
    case 1
    then show ?thesis .
  next
    case 2
    then have "S \<noteq> []" by auto
    with assms(2) have "hd S = CHR ''<''" by simp
    with 2 \<open>S \<noteq> []\<close> have "hd w = CHR ''<''"
      by (cases w; cases S) (auto simp: prefix_def)
    with 2 have "CHR ''<'' \<in> set t" by (cases w) auto
    with assms(1) show ?thesis by simp
  qed
next
  assume "prefix t u"
  then show "prefix t (u @ S)" by (rule prefix_prefix)
qed

lemma greedy_text:
  assumes "plain x"
  shows "greedyDotStarThen (closeTag name) (x @ S) =
         map_option (\<lambda>k. length x + k) (greedyDotStarThen (closeTag name) S)"
  using assms
proof (induction x)
  case Nil
  show ?case by (simp add: option.map_ident)
next
  case (Cons c x)
  then show ?case
    by (cases "greedyDotStarThen (closeTag name) S") (auto simp: closeTag_def)
qed

lemma greedy_chunk:
  assumes "plain u" and "CHR ''<'' \<notin> set name"
  shows "greedyDotStarThen (closeTag name) (CHR ''<'' # u @ flat us) =
     (case greedyDotStarThen (closeTag name) (flat us) of
        Some k \<Rightarrow> Some (Suc (length u + k))
      | None \<Rightarrow> if isCloseChunk name u then Some 0 else None)"
proof -
  have p: "prefix (closeTag name) (CHR ''<'' # u @ flat us) = isCloseChunk name u"
    using prefix_seam [of "''/'' @ name @ ''>''" "flat us" u] assms(2) flat_start [of us]
    by (simp add: closeTag_def isCloseChunk_def)
  have l: "\<not> isLineTerminator CHR ''<''" by (simp add: isLineTerminator_def)
  show ?thesis
    by (simp add: l p greedy_text [OF assms(1)] split: option.splits)
qed

lemma greedy_flat:
  assumes "list_all plain us" and "CHR ''<'' \<notin> set name"
  shows "(list_ex (isCloseChunk name) us \<longrightarrow>
            (\<exists>k. greedyDotStarThen (closeTag name) (flat us) = Some k
                \<and> drop k (flat us) = flat (fromLast (isCloseChunk name) us)))
       \<and> (\<not> list_ex (isCloseChunk name) us \<longrightarrow>
            greedyDotStarThen (closeTag name) (flat us) = None)"
  using assms(1)
proof (induction us)
  case Nil
  show ?case by (simp add: closeTag_def)
next
  case (Cons u us)
  then have pu: "plain u" and IH: "(list_ex (isCloseChunk name) us \<longrightarrow>
            (\<exists>k. greedyDotStarThen (closeTag name) (flat us) = Some k
                \<and> drop k (flat us) = flat (fromLast (isCloseChunk name) us)))
       \<and> (\<not> list_ex (isCloseChunk name) us \<longrightarrow>
            greedyDotStarThen (closeTag name) (flat us) = None)" by simp_all
  note g = greedy_chunk [OF pu assms(2), of us]
  show ?case
  proof (cases "list_ex (isCloseChunk name) us")
    case True
    with IH obtain k where k: "greedyDotStarThen (closeTag name) (flat us) = Some k"
      "drop k (flat us) = flat (fromLast (isCloseChunk name) us)" by blast
    have "greedyDotStarThen (closeTag name) (flat (u # us)) = Some (Suc (length u + k))"
      using g k by simp
    moreover have "drop (Suc (length u + k)) (flat (u # us)) = flat (fromLast (isCloseChunk name) (u # us))"
      using k True by simp
    ultimately show ?thesis using True by auto
  next
    case False
    with IH have n: "greedyDotStarThen (closeTag name) (flat us) = None" by simp
    show ?thesis using g n False by auto
  qed
qed

lemma open_seam:
  assumes "CHR ''<'' \<notin> set name"
  shows "prefix (openTag name) (CHR ''<'' # u @ flat us) = isOpenChunk name u"
  using prefix_seam [of "name @ ''>''" "flat us" u] assms flat_start [of us]
  by (simp add: openTag_def isOpenChunk_def)

lemma match_chunk_None:
  assumes "plain u" "list_all plain us" "CHR ''<'' \<notin> set name"
    and "\<not> (isOpenChunk name u \<and> list_ex (isCloseChunk name) us)"
  shows "matchElement name (CHR ''<'' # u @ flat us) = None"
proof (cases "isOpenChunk name u")
  case False
  then show ?thesis
    using open_seam [OF assms(3), of u us] by (simp add: matchElement_def)
next
  case True
  with assms(4) have nc: "\<not> list_ex (isCloseChunk name) us" by simp
  from True obtain x where u: "u = name @ ''>'' @ x"
    by (auto simp: isOpenChunk_def prefix_def)
  with assms(1) have px: "plain x" by simp
  have d: "drop (length (openTag name)) (CHR ''<'' # u @ flat us) = x @ flat us"
    by (simp add: u openTag_def)
  have "greedyDotStarThen (closeTag name) (x @ flat us) = None"
    using greedy_flat [OF assms(2,3)] nc by (simp add: greedy_text [OF px])
  then show ?thesis
    by (simp only: matchElement_def d) simp
qed

lemma match_chunk_Some:
  assumes "plain u" "list_all plain us" "CHR ''<'' \<notin> set name"
    and "isOpenChunk name u" "list_ex (isCloseChunk name) us"
  shows "\<exists>len. matchElement name (CHR ''<'' # u @ flat us) = Some len
     \<and> drop len (CHR ''<'' # u @ flat us)
         = drop (length (closeTag name)) (flat (fromLast (isCloseChunk name) us))"
proof -
  from assms(4) obtain x where u: "u = name @ ''>'' @ x"
    by (auto simp: isOpenChunk_def prefix_def)
  with assms(1) have px: "plain x" by simp
  have d: "drop (length (openTag name)) (CHR ''<'' # u @ flat us) = x @ flat us"
    by (simp add: u openTag_def)
  obtain k where k: "greedyDotStarThen (closeTag name) (flat us) = Some k"
      "drop k (flat us) = flat (fromLast (isCloseChunk name) us)"
    using greedy_flat [OF assms(2,3)] assms(5) by blast
  have g: "greedyDotStarThen (closeTag name) (x @ flat us) = Some (length x + k)"
    by (simp add: greedy_text [OF px] k)
  have p: "prefix (openTag name) (CHR ''<'' # u @ flat us)"
    using open_seam [OF assms(3), of u us] assms(4) by simp
  have m: "matchElement name (CHR ''<'' # u @ flat us)
      = Some (length (openTag name) + (length x + k) + length (closeTag name))"
    by (simp only: matchElement_def d g p) simp
  have "drop (length (openTag name) + (length x + k) + length (closeTag name)) (CHR ''<'' # u @ flat us)
      = drop (length (closeTag name)) (drop k (drop (length x) (drop (length (openTag name)) (CHR ''<'' # u @ flat us))))"
    by (simp only: drop_drop) (simp add: add.commute add.left_commute)
  also have "\<dots> = drop (length (closeTag name)) (flat (fromLast (isCloseChunk name) us))"
    by (simp only: d) (simp add: k)
  finally show ?thesis using m by blast
qed

lemma replace_text:
  "plain t \<Longrightarrow> replaceFrom name r pre (t @ S) = t @ replaceFrom name r (pre @ t) S"
proof (induction t arbitrary: pre)
  case Nil
  show ?case by simp
next
  case (Cons c t)
  then have "\<not> prefix (openTag name) (c # t @ S)"
    by (auto simp: openTag_def)
  then have "matchElement name (c # t @ S) = None"
    by (simp only: matchElement_def if_False)
  with Cons show ?case by simp
qed

lemma replace_noClose:
  assumes "CHR ''<'' \<notin> set name"
  shows "list_all plain us \<Longrightarrow> \<not> list_ex (isCloseChunk name) us \<Longrightarrow>
         replaceFrom name r pre (flat us) = flat us"
proof (induction us arbitrary: pre)
  case Nil
  show ?case by simp
next
  case (Cons u us)
  then have pu: "plain u" and pus: "list_all plain us" and nc: "\<not> list_ex (isCloseChunk name) us"
    by simp_all
  have "matchElement name (CHR ''<'' # u @ flat us) = None"
    using pu pus assms nc by (intro match_chunk_None) simp_all
  then show ?case
    using Cons.IH [OF pus nc] by (simp add: replace_text [OF pu])
qed

lemma replace_flat:
  assumes n: "CHR ''<'' \<notin> set name"
    and r: "r = openTag name @ v @ closeTag name" "CHR ''$'' \<notin> set r"
  shows "list_all plain us \<Longrightarrow>
         replaceFrom name r pre (flat us)
           = flat (substChunks (isOpenChunk name) (isCloseChunk name) (name @ ''>'' @ v) us)"
proof (induction us arbitrary: pre)
  case Nil
  show ?case by simp
next
  case (Cons u us)
  then have pu: "plain u" and pus: "list_all plain us" by simp_all
  show ?case
  proof (cases "isOpenChunk name u \<and> list_ex (isCloseChunk name) us")
    case False
    have "matchElement name (CHR ''<'' # u @ flat us) = None"
      using pu pus n False by (rule match_chunk_None)
    moreover have "substChunks (isOpenChunk name) (isCloseChunk name) (name @ ''>'' @ v) (u # us)
        = u # substChunks (isOpenChunk name) (isCloseChunk name) (name @ ''>'' @ v) us"
      using False by auto
    ultimately show ?thesis
      using Cons.IH [OF pus] by (simp add: replace_text [OF pu])
  next
    case True
    then obtain len where len: "matchElement name (CHR ''<'' # u @ flat us) = Some len"
        "drop len (CHR ''<'' # u @ flat us)
           = drop (length (closeTag name)) (flat (fromLast (isCloseChunk name) us))"
      using match_chunk_Some [OF pu pus n] by blast
    from True obtain y B where yB: "fromLast (isCloseChunk name) us = y # B"
        "isCloseChunk name y" "\<not> list_ex (isCloseChunk name) B"
      using fromLast_shape by blast
    have "set (y # B) \<subseteq> set us" using fromLast_subset [of "isCloseChunk name" us] yB(1) by simp
    with pus have py: "plain y" and pB: "list_all plain B" by (auto simp: list_all_iff)
    from yB(2) obtain y' where y: "y = ''/'' @ name @ ''>'' @ y'"
      by (auto simp: isCloseChunk_def prefix_def)
    with py have py': "plain y'" by simp
    have rest: "drop len (CHR ''<'' # u @ flat us) = y' @ flat B"
      by (simp add: len(2) yB(1) y closeTag_def)
    have "replaceFrom name r pre (CHR ''<'' # u @ flat us)
        = r @ replaceFrom name r (pre @ take len (CHR ''<'' # u @ flat us)) (y' @ flat B)"
      by (simp only: replaceFrom.simps len(1) option.case rest getSubstitution_plain [OF r(2)])
    also have "\<dots> = r @ y' @ flat B"
      by (simp add: replace_text [OF py'] replace_noClose [OF n pB yB(3)])
    also have "\<dots> = flat ((name @ ''>'' @ v) # y # B)"
      by (simp add: r(1) y openTag_def closeTag_def)
    also have "\<dots> = flat (substChunks (isOpenChunk name) (isCloseChunk name) (name @ ''>'' @ v) (u # us))"
      using True yB(1) by simp
    finally show ?thesis by simp
  qed
qed

section \<open>The replacement works line by line\<close>

lemma greedy_bound:
  "greedyDotStarThen lit s = Some k \<Longrightarrow> k + length lit \<le> length s"
proof (induction s arbitrary: k)
  case Nil
  then show ?case by (simp split: if_splits)
next
  case (Cons c s)
  show ?case
  proof (cases "if isLineTerminator c then None else greedyDotStarThen lit s")
    case None
    with Cons.prems have "prefix lit (c # s)" and "k = 0"
      by (auto split: if_splits)
    then show ?thesis using prefix_length_le by fastforce
  next
    case (Some j)
    with Cons.prems have "k = Suc j" and "greedyDotStarThen lit s = Some j"
      by (auto split: if_splits)
    with Cons.IH show ?thesis by simp
  qed
qed

lemma match_bound:
  assumes "matchElement name s = Some n"
  shows "0 < n \<and> n \<le> length s"
proof -
  from assms obtain k where p: "prefix (openTag name) s"
    and g: "greedyDotStarThen (closeTag name) (drop (length (openTag name)) s) = Some k"
    and n: "n = length (openTag name) + k + length (closeTag name)"
    by (auto simp: matchElement_def split: if_splits option.splits)
  from greedy_bound [OF g] have "k + length (closeTag name) \<le> length s - length (openTag name)"
    by simp
  moreover from p have "length (openTag name) \<le> length s" by (rule prefix_length_le)
  ultimately show ?thesis using n by (simp add: openTag_def)
qed

lemma replaceFrom_pre:
  assumes "CHR ''$'' \<notin> set r"
  shows "replaceFrom name r pre s = replaceFrom name r pre' s"
proof (induction s arbitrary: pre pre' rule: length_induct)
  case (1 s)
  show ?case
  proof (cases s)
    case Nil
    then show ?thesis by simp
  next
    case (Cons c cs)
    show ?thesis
    proof (cases "matchElement name (c # cs)")
      case None
      have "replaceFrom name r (pre @ [c]) cs = replaceFrom name r (pre' @ [c]) cs"
        using 1 Cons by simp
      with None Cons show ?thesis by simp
    next
      case (Some n)
      from match_bound [OF Some] have "length (drop n (c # cs)) < length s"
        using Cons by simp
      then have "replaceFrom name r (pre @ take n (c # cs)) (drop n (c # cs))
          = replaceFrom name r (pre' @ take n (c # cs)) (drop n (c # cs))"
        using 1 by blast
      then show ?thesis
        by (simp only: Cons replaceFrom.simps Some option.case getSubstitution_plain [OF assms])
    qed
  qed
qed

lemma prefix_before:
  assumes "c \<notin> set t"
  shows "prefix t (u @ c # S) = prefix t u"
proof
  assume "prefix t (u @ c # S)"
  then consider "prefix t u" | w where "t = u @ w" "prefix w (c # S)" "w \<noteq> []"
    unfolding prefix_append by (metis append_Nil2 prefix_order.refl)
  then show "prefix t u"
  proof cases
    case 1
    then show ?thesis .
  next
    case 2
    then have "hd w = c" by (cases w) (auto simp: prefix_def)
    with 2 have "c \<in> set t" by (cases w) auto
    with assms show ?thesis by simp
  qed
next
  assume "prefix t u"
  then show "prefix t (u @ c # S)" by (rule prefix_prefix)
qed

lemma greedy_line:
  assumes "isLineTerminator c" "c \<notin> set lit" "lit \<noteq> []"
  shows "greedyDotStarThen lit (m @ c # rest) = greedyDotStarThen lit m"
proof (induction m)
  case Nil
  have "\<not> prefix lit (c # rest)" using assms(2,3) by (cases lit) auto
  then show ?case using assms by simp
next
  case (Cons x m)
  have "prefix lit (x # m @ c # rest) = prefix lit (x # m)"
    using prefix_before [OF assms(2), of "x # m" rest] by simp
  with Cons show ?case by simp
qed

lemma match_line:
  assumes "isLineTerminator c" "lineFree name"
  shows "matchElement name (l @ c # rest) = matchElement name l"
proof -
  have lt: "\<And>d. d \<in> set ''</>'' \<Longrightarrow> \<not> isLineTerminator d" by (auto simp: isLineTerminator_def)
  have o: "c \<notin> set (openTag name)" and cl: "c \<notin> set (closeTag name)"
    using assms lt by (auto simp: openTag_def closeTag_def lineFree_def list_all_iff)
  have p: "prefix (openTag name) (l @ c # rest) = prefix (openTag name) l"
    using o by (rule prefix_before)
  show ?thesis
  proof (cases "prefix (openTag name) l")
    case False
    with p show ?thesis by (simp add: matchElement_def)
  next
    case True
    then have "length (openTag name) \<le> length l" by (rule prefix_length_le)
    then have d: "drop (length (openTag name)) (l @ c # rest) = drop (length (openTag name)) l @ c # rest"
      by simp
    have g: "greedyDotStarThen (closeTag name) (drop (length (openTag name)) l @ c # rest)
        = greedyDotStarThen (closeTag name) (drop (length (openTag name)) l)"
      using assms(1) cl by (rule greedy_line) (simp add: closeTag_def)
    show ?thesis by (simp only: matchElement_def p d g)
  qed
qed

lemma replace_line:
  assumes "isLineTerminator c" "lineFree name" "CHR ''$'' \<notin> set r"
  shows "replaceFrom name r pre (l @ c # rest)
       = replaceFrom name r pre l @ c # replaceFrom name r pre rest"
proof (induction l arbitrary: pre rule: length_induct)
  case (1 l)
  show ?case
  proof (cases l)
    case Nil
    have "matchElement name (c # rest) = None"
      using match_line [OF assms(1,2), of "[]" rest] by (simp add: matchElement_def openTag_def)
    then show ?thesis
      using Nil replaceFrom_pre [OF assms(3), of name "pre @ [c]" rest pre] by simp
  next
    case (Cons x xs)
    have m: "matchElement name (x # xs @ c # rest) = matchElement name (x # xs)"
      using match_line [OF assms(1,2), of "x # xs" rest] by simp
    show ?thesis
    proof (cases "matchElement name (x # xs)")
      case None
      have "replaceFrom name r (pre @ [x]) (xs @ c # rest)
          = replaceFrom name r (pre @ [x]) xs @ c # replaceFrom name r (pre @ [x]) rest"
        using 1 Cons by simp
      then show ?thesis
        using None m Cons replaceFrom_pre [OF assms(3), of name "pre @ [x]" rest pre] by simp
    next
      case (Some n)
      from match_bound [OF Some] have n: "0 < n" "n \<le> length (x # xs)" by simp_all
      then have lt: "length (drop n (x # xs)) < length l" using Cons by simp
      have t: "take n (x # xs @ c # rest) = take n (x # xs)"
        and d: "drop n (x # xs @ c # rest) = drop n (x # xs) @ c # rest"
        using n(2) take_append [of n "x # xs" "c # rest"] drop_append [of n "x # xs" "c # rest"]
        by simp_all
      have IH: "replaceFrom name r pre'' (drop n (x # xs) @ c # rest)
          = replaceFrom name r pre'' (drop n (x # xs)) @ c # replaceFrom name r pre'' rest" for pre''
        using 1 lt by blast
      have "replaceFrom name r pre (x # xs @ c # rest)
          = r @ replaceFrom name r (pre @ take n (x # xs)) (drop n (x # xs) @ c # rest)"
        by (simp only: replaceFrom.simps m Some option.case t d getSubstitution_plain [OF assms(3)])
      moreover have "replaceFrom name r pre (x # xs)
          = r @ replaceFrom name r (pre @ take n (x # xs)) (drop n (x # xs))"
        by (simp only: replaceFrom.simps Some option.case getSubstitution_plain [OF assms(3)])
      ultimately show ?thesis
        using IH [of "pre @ take n (x # xs)"] Cons
          replaceFrom_pre [OF assms(3), of name "pre @ take n (x # xs)" rest pre]
        by simp
    qed
  qed
qed

lemma chunks_exist:
  "lineFree l \<Longrightarrow> \<exists>t us. l = t @ flat us \<and> plain t \<and> list_all plain us"
proof (induction l)
  case Nil
  have "[] = [] @ flat [] \<and> plain [] \<and> list_all plain []" by simp
  then show ?case by blast
next
  case (Cons c l)
  then obtain t us where tu: "l = t @ flat us" "plain t" "list_all plain us"
    by (auto simp: lineFree_def)
  from Cons.prems have nc: "\<not> isLineTerminator c" by (simp add: lineFree_def)
  show ?case
  proof (cases "c = CHR ''<''")
    case True
    with tu have "c # l = [] @ flat (t # us) \<and> plain [] \<and> list_all plain (t # us)" by simp
    then show ?thesis by blast
  next
    case False
    with tu nc have "c # l = (c # t) @ flat us \<and> plain (c # t) \<and> list_all plain us" by simp
    then show ?thesis by blast
  qed
qed

lemma lines_cases:
  "lineFree s \<or> (\<exists>l c rest. s = l @ c # rest \<and> lineFree l \<and> isLineTerminator c)"
proof (cases "lineFree s")
  case True
  then show ?thesis by simp
next
  case False
  then have "\<exists>c \<in> set s. isLineTerminator c" by (auto simp: lineFree_def list_all_iff)
  then obtain l c rest where "s = l @ c # rest" "isLineTerminator c" "\<forall>d \<in> set l. \<not> isLineTerminator d"
    using split_list_first_prop [of s isLineTerminator] by blast
  then show ?thesis by (auto simp: lineFree_def list_all_iff)
qed

section \<open>Several replacements in a row\<close>

lemma open_not_close: "goodName n \<Longrightarrow> isOpenChunk n u \<Longrightarrow> \<not> isCloseChunk m u"
  by (cases u; cases n) (auto simp: goodName_def isOpenChunk_def isCloseChunk_def)

lemma open_not_open: "apart n m \<Longrightarrow> isOpenChunk m u \<Longrightarrow> \<not> isOpenChunk n u"
  unfolding apart_def isOpenChunk_def using prefix_same_cases by blast

lemma new_not_open: "apart n m \<Longrightarrow> \<not> isOpenChunk n (m @ ''>'' @ v)"
proof -
  assume a: "apart n m"
  have "isOpenChunk m (m @ ''>'' @ v)" by (simp add: isOpenChunk_def)
  with a show ?thesis by (rule open_not_open)
qed

lemma new_open: "isOpenChunk n (n @ ''>'' @ v)"
  by (simp add: isOpenChunk_def)

lemma new_not_close: "goodName m \<Longrightarrow> \<not> isCloseChunk n (m @ ''>'' @ v)"
  by (rule open_not_close [OF _ new_open])

lemma chunkStep_idem:
  "goodName n \<Longrightarrow> chunkStep n v (chunkStep n v us) = chunkStep n v us"
  unfolding chunkStep_def by (rule substChunks_idem) (rule new_open, rule new_not_close)

lemma chunkStep_preserves:
  assumes "goodName n" "goodName m" "apart n m" "chunkStep n v us = us"
  shows "chunkStep n v (chunkStep m w us) = chunkStep m w us"
  unfolding chunkStep_def
proof (rule substChunks_preserves)
  show "\<And>u. isOpenChunk n u \<Longrightarrow> \<not> isCloseChunk n u" using assms(1) by (rule open_not_close)
  show "\<And>u. isOpenChunk m u \<Longrightarrow> \<not> isOpenChunk n u" using assms(3) by (rule open_not_open)
  show "\<And>u. isCloseChunk n u \<Longrightarrow> \<not> isOpenChunk m u" using open_not_close [OF assms(2)] by blast
  show "\<not> isOpenChunk n (m @ ''>'' @ w)" using assms(3) by (rule new_not_open)
  show "\<not> isCloseChunk n (m @ ''>'' @ w)" using assms(2) by (rule new_not_close)
  show "substChunks (isOpenChunk n) (isCloseChunk n) (n @ ''>'' @ v) us = us"
    using assms(4) by (simp add: chunkStep_def)
qed

lemma chunkSteps_preserves:
  assumes "goodName n"
  shows "list_all goodStep xs \<Longrightarrow> list_all (\<lambda>y. apart n (fst y)) xs \<Longrightarrow> chunkStep n v us = us \<Longrightarrow>
         chunkStep n v (chunkSteps xs us) = chunkSteps xs us"
proof (induction xs arbitrary: us)
  case Nil
  then show ?case by simp
next
  case (Cons x xs)
  obtain m w where x: "x = (m, w)" by (cases x)
  have "chunkStep n v (chunkStep m w us) = chunkStep m w us"
    using assms Cons.prems x by (intro chunkStep_preserves) (simp_all add: goodStep_def)
  with Cons show ?case by (simp add: x)
qed

lemma chunkSteps_stable:
  "list_all goodStep xs \<Longrightarrow> apartSteps xs \<Longrightarrow> (n, v) \<in> set xs \<Longrightarrow>
   chunkStep n v (chunkSteps xs us) = chunkSteps xs us"
proof (induction xs arbitrary: us)
  case Nil
  then show ?case by simp
next
  case (Cons x xs)
  obtain m w where x: "x = (m, w)" by (cases x)
  show ?case
  proof (cases "(n, v) \<in> set xs")
    case True
    with Cons show ?thesis by (simp add: x)
  next
    case False
    with Cons.prems x have nv: "m = n" "w = v" by simp_all
    have g: "goodName n" using Cons.prems(1) x nv by (simp add: goodStep_def)
    have "chunkStep n v (chunkSteps xs (chunkStep n v us)) = chunkSteps xs (chunkStep n v us)"
      using g Cons.prems x nv by (intro chunkSteps_preserves chunkStep_idem) simp_all
    then show ?thesis by (simp add: x nv)
  qed
qed

lemma chunkSteps_fixed:
  "(\<And>n v. (n, v) \<in> set xs \<Longrightarrow> chunkStep n v us = us) \<Longrightarrow> chunkSteps xs us = us"
  by (induction xs) auto

lemma chunkSteps_idem:
  assumes "list_all goodStep xs" "apartSteps xs"
  shows "chunkSteps xs (chunkSteps xs us) = chunkSteps xs us"
  by (rule chunkSteps_fixed) (rule chunkSteps_stable [OF assms])

lemma chunkStep_plain:
  assumes "goodStep (n, v)" "list_all plain us"
  shows "list_all plain (chunkStep n v us)"
proof -
  have "plain (n @ ''>'' @ v)"
    using assms(1) by (simp add: goodStep_def goodName_def isLineTerminator_def)
  with assms(2) show ?thesis
    using substChunks_subset [of "isOpenChunk n" "isCloseChunk n" "n @ ''>'' @ v" us]
    unfolding chunkStep_def list_all_iff by blast
qed

lemma replaceElement_chunks:
  assumes "goodStep (n, v)" "plain t" "list_all plain us"
  shows "replaceElement n (openTag n @ v @ closeTag n) (t @ flat us) = t @ flat (chunkStep n v us)"
proof -
  have n: "CHR ''<'' \<notin> set n" using assms(1) by (auto simp: goodStep_def goodName_def plain_def list_all_iff)
  have d: "CHR ''$'' \<notin> set (openTag n @ v @ closeTag n)"
    using assms(1) by (auto simp: goodStep_def goodName_def openTag_def closeTag_def)
  show ?thesis
    unfolding replaceElement_def chunkStep_def
    by (simp add: replace_text [OF assms(2)] replace_flat [OF n refl d assms(3)])
qed

lemma replaceSteps_chunks:
  "list_all goodStep xs \<Longrightarrow> plain t \<Longrightarrow> list_all plain us \<Longrightarrow>
   replaceSteps xs (t @ flat us) = t @ flat (chunkSteps xs us)"
proof (induction xs arbitrary: us)
  case Nil
  show ?case by simp
next
  case (Cons x xs)
  obtain n v where x: "x = (n, v)" by (cases x)
  have g: "goodStep (n, v)" using Cons.prems(1) x by simp
  have p: "list_all plain (chunkStep n v us)" using g Cons.prems(3) by (rule chunkStep_plain)
  show ?case
    using Cons.IH [OF _ Cons.prems(2) p] Cons.prems(1)
    by (simp add: x replaceElement_chunks [OF g Cons.prems(2,3)])
qed

lemma replaceSteps_line:
  assumes "isLineTerminator c"
  shows "list_all goodStep xs \<Longrightarrow>
         replaceSteps xs (l @ c # rest) = replaceSteps xs l @ c # replaceSteps xs rest"
proof (induction xs arbitrary: l rest)
  case Nil
  show ?case by simp
next
  case (Cons x xs)
  obtain n v where x: "x = (n, v)" by (cases x)
  have g: "goodStep (n, v)" using Cons.prems x by simp
  have lf: "lineFree n" using g by (simp add: goodStep_def goodName_def plain_def lineFree_def)
  have d: "CHR ''$'' \<notin> set (openTag n @ v @ closeTag n)"
    using g by (auto simp: goodStep_def goodName_def openTag_def closeTag_def)
  have "replaceElement n (openTag n @ v @ closeTag n) (l @ c # rest)
      = replaceElement n (openTag n @ v @ closeTag n) l @ c # replaceElement n (openTag n @ v @ closeTag n) rest"
    unfolding replaceElement_def using assms lf d by (rule replace_line)
  with Cons show ?case by (simp add: x)
qed

lemma replaceSteps_idem:
  assumes "list_all goodStep xs" "apartSteps xs"
  shows "replaceSteps xs (replaceSteps xs s) = replaceSteps xs s"
proof (induction s rule: length_induct)
  case (1 s)
  have line: "replaceSteps xs (replaceSteps xs l) = replaceSteps xs l" if "lineFree l" for l
  proof -
    from that obtain t us where l: "l = t @ flat us" "plain t" "list_all plain us"
      using chunks_exist by blast
    have p: "list_all plain (chunkSteps xs us)"
      using assms(1) l(3)
    proof (induction xs arbitrary: us)
      case Nil
      then show ?case by simp
    next
      case (Cons x xs)
      obtain n v where x: "x = (n, v)" by (cases x)
      with Cons.prems have "list_all plain (chunkStep n v us)" by (intro chunkStep_plain) simp_all
      with Cons show ?case by (simp add: x)
    qed
    show ?thesis
      by (simp add: l(1) replaceSteps_chunks [OF assms(1) l(2)] l(3) p chunkSteps_idem [OF assms])
  qed
  from lines_cases [of s] show ?case
  proof
    assume "lineFree s"
    then show ?thesis by (rule line)
  next
    assume "\<exists>l c rest. s = l @ c # rest \<and> lineFree l \<and> isLineTerminator c"
    then obtain l c rest where s: "s = l @ c # rest" "lineFree l" "isLineTerminator c" by blast
    have "length rest < length s" using s(1) by simp
    with 1 have r: "replaceSteps xs (replaceSteps xs rest) = replaceSteps xs rest" by blast
    show ?thesis
      by (simp add: s(1) replaceSteps_line [OF s(3) assms(1)] line [OF s(2)] r)
  qed
qed

section \<open>The replacements of the manifest update\<close>

lemma updatedContentOf_steps:
  "updatedContentOf v major minor patch prerelease content
     = replaceSteps (tagSteps v major minor patch prerelease) content"
  by (simp add: updatedContentOf_def tagSteps_def Let_def openTag_def closeTag_def)

lemma tagSteps_apart: "apartSteps (tagSteps v major minor patch prerelease)"
  by (simp add: tagSteps_def apart_def)

lemma goodName_tags:
  "goodName ''Version''" "goodName ''VersionMajor''" "goodName ''VersionMinor''"
  "goodName ''VersionPatch''" "goodName ''VersionSuffix''"
  by (simp_all add: goodName_def isLineTerminator_def)

lemma isDigit_chars:
  "isDigit c \<Longrightarrow> c \<noteq> CHR ''<''" "isDigit c \<Longrightarrow> c \<noteq> CHR ''$''" "isDigit c \<Longrightarrow> \<not> isLineTerminator c"
  by (auto simp: isDigit_def isLineTerminator_def)

lemma digits_plain:
  assumes "list_all isDigit d"
  shows "plain d" and "CHR ''$'' \<notin> set d"
proof -
  have "\<And>c. c \<in> set d \<Longrightarrow> isDigit c" using assms by (simp add: list_all_iff)
  then show "plain d" and "CHR ''$'' \<notin> set d"
    unfolding plain_def list_all_iff using isDigit_chars by blast+
qed

lemma match_plain:
  assumes m: "versionMatch v = Some (major, minor, patch, prerelease)"
    and d: "CHR ''$'' \<notin> set v" and l: "CHR ''<'' \<notin> set v"
  shows "plain v" "plain (orEmpty prerelease)" "CHR ''$'' \<notin> set (orEmpty prerelease)"
proof -
  note D = versionMatch_SomeD [OF m]
  have sub: "set (orEmpty prerelease) \<subseteq> set v"
    by (cases prerelease) (auto simp: D(1) orEmpty_def)
  show pre: "plain (orEmpty prerelease)"
    using D(9) l sub unfolding plain_def list_all_iff by blast
  show "CHR ''$'' \<notin> set (orEmpty prerelease)"
    using d sub by auto
  have a: "plain major" "plain minor" "plain patch"
    using digits_plain(1) [OF D(5)] digits_plain(1) [OF D(6)] digits_plain(1) [OF D(7)] .
  have b: "plain (case prerelease of None \<Rightarrow> [] | Some x \<Rightarrow> ''-'' @ x)"
    using pre by (cases prerelease) (simp_all add: orEmpty_def isLineTerminator_def)
  have c: "plain ''.''" by (simp add: isLineTerminator_def)
  have "plain (major @ ''.'' @ minor @ ''.'' @ patch @ (case prerelease of None \<Rightarrow> [] | Some x \<Rightarrow> ''-'' @ x))"
    by (simp only: plain_simps(3) a b c simp_thms)
  then show "plain v" by (simp only: D(1) [symmetric])
qed

lemma tagSteps_good:
  assumes m: "versionMatch v = Some (major, minor, patch, prerelease)"
    and d: "CHR ''$'' \<notin> set v" and l: "CHR ''<'' \<notin> set v"
  shows "list_all goodStep (tagSteps v major minor patch prerelease)"
proof -
  note D = versionMatch_SomeD [OF m]
  note P = match_plain [OF m d l]
  have sp: "showOpt prerelease = orEmpty prerelease" if "truthy prerelease"
    using that by (cases prerelease) (simp_all add: truthy_def showOpt_def orEmpty_def)
  have "goodStep (''Version'', v)" "goodStep (''VersionMajor'', major)"
    "goodStep (''VersionMinor'', minor)" "goodStep (''VersionPatch'', patch)"
    "truthy prerelease \<Longrightarrow> goodStep (''VersionSuffix'', showOpt prerelease)"
    using P d digits_plain [OF D(5)] digits_plain [OF D(6)] digits_plain [OF D(7)] sp
    by (simp_all add: goodStep_def goodName_tags)
  then show ?thesis by (simp add: tagSteps_def)
qed

lemma updatedContentOf_idem:
  assumes "versionMatch v = Some (major, minor, patch, prerelease)"
    and "CHR ''$'' \<notin> set v" and "CHR ''<'' \<notin> set v"
  shows "updatedContentOf v major minor patch prerelease
           (updatedContentOf v major minor patch prerelease content)
         = updatedContentOf v major minor patch prerelease content"
  unfolding updatedContentOf_steps
  by (rule replaceSteps_idem [OF tagSteps_good [OF assms] tagSteps_apart])

lemma updateProjectFile_second:
  assumes m: "versionMatch (version p) = Some (major, minor, patch, prerelease)"
    and d: "CHR ''$'' \<notin> set (version p)" and l: "CHR ''<'' \<notin> set (version p)"
    and first: "updateProjectFile p s = Inr s1"
  shows "updateProjectFile p s1 = Inr s1
       \<and> (\<exists>content. files s (path p) = Some content
            \<and> files s1 (path p) = Some (updatedContentOf (version p) major minor patch prerelease content))"
proof -
  from first obtain content where c: "files s (path p) = Some content"
    by (auto simp: updateProjectFile_def readFile_def split: option.splits)
  let ?u = "updatedContentOf (version p) major minor patch prerelease content"
  have i: "updatedContentOf (version p) major minor patch prerelease ?u = ?u"
    using m d l by (rule updatedContentOf_idem)
  show ?thesis
  proof (cases "?u = content")
    case True
    with first c m have "s1 = s"
      by (simp add: updateProjectFile_def readFile_def)
    with first True c show ?thesis by simp
  next
    case False
    with first c m have s1: "s1 = info (''Updated version properties in '' @ project p)
        (s\<lparr>files := (files s)(path p \<mapsto> ?u)\<rparr>)"
      by (auto simp: updateProjectFile_def readFile_def writeFile_def split: if_splits)
    then have f: "files s1 (path p) = Some ?u" by (simp add: info_def)
    have "updateProjectFile p s1 = Inr s1"
      by (simp add: updateProjectFile_def readFile_def f m i)
    with c f show ?thesis by simp
  qed
qed

lemma replace_noOpen:
  "\<not> sublist (openTag name) s \<Longrightarrow> replaceFrom name r pre s = s"
proof (induction s arbitrary: pre)
  case Nil
  show ?case by simp
next
  case (Cons c s)
  then have "\<not> prefix (openTag name) (c # s)" and "\<not> sublist (openTag name) s"
    by (auto simp: sublist_Cons_right)
  then have "matchElement name (c # s) = None" and "replaceFrom name r (pre @ [c]) s = s"
    using Cons.IH by (simp_all add: matchElement_def)
  then show ?case by simp
qed

lemma replaceSteps_noOpen:
  "list_all (\<lambda>x. sublist (openTag (fst x)) s = False) xs \<Longrightarrow> replaceSteps xs s = s"
  by (induction xs) (auto simp: replaceElement_def replace_noOpen)

section \<open>A line with one element\<close>

lemma substChunks_noOpen: "\<not> list_ex Opn us \<Longrightarrow> substChunks Opn Cls w us = us"
  by (induction us) auto

lemma open_other: "apart n m \<Longrightarrow> \<not> isOpenChunk n (m @ ''>'' @ x)"
  by (rule new_not_open)

lemma chunkStep_other:
  assumes "goodName n" "apart n m"
  shows "chunkStep n w [m @ ''>'' @ old, ''/'' @ m @ ''>'' @ ws] = [m @ ''>'' @ old, ''/'' @ m @ ''>'' @ ws]"
proof -
  have "\<not> isOpenChunk n (m @ ''>'' @ old)" using assms(2) by (rule open_other)
  moreover have "\<not> isOpenChunk n (''/'' @ m @ ''>'' @ ws)"
    using assms(1) by (cases n) (auto simp: goodName_def isOpenChunk_def)
  ultimately show ?thesis
    unfolding chunkStep_def by (intro substChunks_noOpen) simp
qed

lemma chunkStep_same:
  "chunkStep m w [m @ ''>'' @ old, ''/'' @ m @ ''>'' @ ws] = [m @ ''>'' @ w, ''/'' @ m @ ''>'' @ ws]"
proof -
  have "isOpenChunk m (m @ ''>'' @ old)" by (rule new_open)
  moreover have "isCloseChunk m (''/'' @ m @ ''>'' @ ws)" by (simp add: isCloseChunk_def)
  ultimately show ?thesis
    unfolding chunkStep_def by (simp del: append.simps append_assoc)
qed

lemma chunkSteps_other:
  "list_all goodStep xs \<Longrightarrow> list_all (\<lambda>y. apart (fst y) m) xs \<Longrightarrow>
   chunkSteps xs [m @ ''>'' @ old, ''/'' @ m @ ''>'' @ ws] = [m @ ''>'' @ old, ''/'' @ m @ ''>'' @ ws]"
proof (induction xs)
  case Nil
  show ?case by simp
next
  case (Cons x xs)
  obtain n w where x: "x = (n, w)" by (cases x)
  have "chunkStep n w [m @ ''>'' @ old, ''/'' @ m @ ''>'' @ ws] = [m @ ''>'' @ old, ''/'' @ m @ ''>'' @ ws]"
    using Cons.prems x by (intro chunkStep_other) (simp_all add: goodStep_def)
  with Cons show ?case by (simp only: x chunkSteps.simps) simp
qed

lemma apart_sym: "apart n m = apart m n"
  by (auto simp: apart_def)

lemma chunkSteps_same:
  "list_all goodStep xs \<Longrightarrow> apartSteps xs \<Longrightarrow> (m, w) \<in> set xs \<Longrightarrow>
   chunkSteps xs [m @ ''>'' @ old, ''/'' @ m @ ''>'' @ ws] = [m @ ''>'' @ w, ''/'' @ m @ ''>'' @ ws]"
proof (induction xs arbitrary: old)
  case Nil
  then show ?case by simp
next
  case (Cons x xs)
  obtain n w' where x: "x = (n, w')" by (cases x)
  show ?case
  proof (cases "(m, w) \<in> set xs")
    case True
    then have "apart n m" using Cons.prems(2) x by (auto simp: list_all_iff)
    moreover have "goodName n" using Cons.prems(1) x by (simp add: goodStep_def)
    ultimately have "chunkStep n w' [m @ ''>'' @ old, ''/'' @ m @ ''>'' @ ws]
        = [m @ ''>'' @ old, ''/'' @ m @ ''>'' @ ws]" by (rule chunkStep_other [rotated])
    moreover have "chunkSteps xs [m @ ''>'' @ old, ''/'' @ m @ ''>'' @ ws] = [m @ ''>'' @ w, ''/'' @ m @ ''>'' @ ws]"
      using Cons True by simp
    ultimately show ?thesis by (simp only: x chunkSteps.simps)
  next
    case False
    with Cons.prems(3) x have nm: "n = m" "w' = w" by simp_all
    have "list_all (\<lambda>y. apart (fst y) m) xs"
      using Cons.prems(2) x nm by (simp add: apart_sym [of m])
    moreover have "list_all goodStep xs" using Cons.prems(1) by simp
    ultimately have "chunkSteps xs [m @ ''>'' @ w, ''/'' @ m @ ''>'' @ ws] = [m @ ''>'' @ w, ''/'' @ m @ ''>'' @ ws]"
      by (rule chunkSteps_other [rotated])
    then show ?thesis by (simp only: x nm chunkSteps.simps chunkStep_same)
  qed
qed

lemma element_line:
  "ws @ openTag m @ old @ closeTag m @ ws' = ws @ flat [m @ ''>'' @ old, ''/'' @ m @ ''>'' @ ws']"
  by (simp add: openTag_def closeTag_def)

lemma replaceSteps_element:
  assumes "list_all goodStep xs" "apartSteps xs" "(m, w) \<in> set xs"
    and "plain ws" "plain old" "plain ws'"
  shows "replaceSteps xs (ws @ openTag m @ old @ closeTag m @ ws') = ws @ openTag m @ w @ closeTag m @ ws'"
proof -
  have "goodStep (m, w)" using assms(1,3) by (auto simp: list_all_iff)
  then have pm: "plain m" by (simp add: goodStep_def goodName_def)
  have p: "list_all plain [m @ ''>'' @ old, ''/'' @ m @ ''>'' @ ws']"
    using pm assms(5,6) by (simp add: isLineTerminator_def)
  show ?thesis
    unfolding element_line
    by (simp only: replaceSteps_chunks [OF assms(1,4) p] chunkSteps_same [OF assms(1,2,3)])
qed

lemma replaceSteps_other_element:
  assumes "list_all goodStep xs" "list_all (\<lambda>y. apart (fst y) m) xs"
    and "plain m" "plain ws" "plain old" "plain ws'"
  shows "replaceSteps xs (ws @ openTag m @ old @ closeTag m @ ws') = ws @ openTag m @ old @ closeTag m @ ws'"
proof -
  have p: "list_all plain [m @ ''>'' @ old, ''/'' @ m @ ''>'' @ ws']"
    using assms(3,5,6) by (simp add: isLineTerminator_def)
  show ?thesis
    unfolding element_line
    by (simp only: replaceSteps_chunks [OF assms(1,4) p] chunkSteps_other [OF assms(1,2)])
qed

section \<open>The manifest update: a second application, and what it leaves alone\<close>

lemma updateProjectFile_result:
  assumes m: "versionMatch (version p) = Some (major, minor, patch, prerelease)"
    and c: "files s (path p) = Some content"
    and r: "updateProjectFile p s = Inr s'"
  shows "files s' = (files s)(path p \<mapsto> updatedContentOf (version p) major minor patch prerelease content)"
proof (cases "updatedContentOf (version p) major minor patch prerelease content = content")
  case True
  with m c r have "s' = s" by (simp add: updateProjectFile_def readFile_def)
  with c True show ?thesis by (simp add: fun_upd_idem)
next
  case False
  with m c r show ?thesis
    by (auto simp: updateProjectFile_def readFile_def writeFile_def info_def split: if_splits)
qed

lemma updateProjectFile_unchanged:
  assumes m: "versionMatch (version p) = Some (major, minor, patch, prerelease)"
    and c: "files s (path p) = Some content"
    and u: "updatedContentOf (version p) major minor patch prerelease content = content"
  shows "updateProjectFile p s = Inr s"
  using m c u by (simp add: updateProjectFile_def readFile_def)

lemma tagSteps_None:
  "tagSteps v major minor patch None
     = [(''Version'', v), (''VersionMajor'', major), (''VersionMinor'', minor), (''VersionPatch'', patch)]"
  by (simp add: tagSteps_def truthy_def)

lemma match_None_chars:
  assumes m: "versionMatch v = Some (major, minor, patch, None)"
  shows "CHR ''$'' \<notin> set v" "CHR ''<'' \<notin> set v"
proof -
  note D = versionMatch_SomeD [OF m]
  have "\<And>c. c \<in> set v \<Longrightarrow> isDigit c \<or> c = CHR ''.''"
    using D(5,6,7) by (auto simp: D(1) list_all_iff)
  then show "CHR ''$'' \<notin> set v" "CHR ''<'' \<notin> set v"
    using isDigit_chars by fastforce+
qed

lemma updateProjectFile_changed:
  assumes m: "versionMatch (version p) = Some (major, minor, patch, prerelease)"
    and c: "files s (path p) = Some content"
    and u: "updatedContentOf (version p) major minor patch prerelease content = u"
    and ne: "u \<noteq> content"
    and w: "writable s (path p)"
  shows "updateProjectFile p s
      = Inr (info (''Updated version properties in '' @ project p) (s\<lparr>files := (files s)(path p \<mapsto> u)\<rparr>))"
  using m c u ne w by (simp add: updateProjectFile_def readFile_def writeFile_def)



text \<open>
  What holds of a second update. For a record whose version matches the version
  pattern: when the replacements leave the content as it was read, \<open>updateProjectFile\<close> returns the state
  unchanged (nothing is written, nothing is logged). When the version holds neither
  \<open>$\<close> nor \<open><\<close>, the replacements applied to their own result give that result again,
  and a second \<open>updateProjectFile\<close> after a first one that returned normally returns
  the state of the first unchanged: same content, no write; the first leaves every
  other file as it was.
\<close>

theorem updateProjectFile_idempotent:
  assumes m: "versionMatch (version p) = Some (major, minor, patch, prerelease)"
  shows "(\<forall>s content. files s (path p) = Some content
            \<and> updatedContentOf (version p) major minor patch prerelease content = content
            \<longrightarrow> updateProjectFile p s = Inr s)
       \<and> (CHR ''$'' \<notin> set (version p) \<and> CHR ''<'' \<notin> set (version p) \<longrightarrow>
            (\<forall>content. updatedContentOf (version p) major minor patch prerelease
                          (updatedContentOf (version p) major minor patch prerelease content)
                        = updatedContentOf (version p) major minor patch prerelease content)
          \<and> (\<forall>s s1. updateProjectFile p s = Inr s1 \<longrightarrow>
                 updateProjectFile p s1 = Inr s1
               \<and> (\<exists>content. files s (path p) = Some content
                    \<and> files s1 = (files s)(path p \<mapsto>
                         updatedContentOf (version p) major minor patch prerelease content))))"
proof (intro conjI impI allI)
  fix s :: state and content
  assume "files s (path p) = Some content
            \<and> updatedContentOf (version p) major minor patch prerelease content = content"
  then show "updateProjectFile p s = Inr s"
    using updateProjectFile_unchanged [OF m] by blast
next
  fix content
  assume a: "CHR ''$'' \<notin> set (version p) \<and> CHR ''<'' \<notin> set (version p)"
  then show "updatedContentOf (version p) major minor patch prerelease
                          (updatedContentOf (version p) major minor patch prerelease content)
                        = updatedContentOf (version p) major minor patch prerelease content"
    using updatedContentOf_idem [OF m] by blast
next
  fix s s1 :: state
  assume a: "CHR ''$'' \<notin> set (version p) \<and> CHR ''<'' \<notin> set (version p)"
    and f: "updateProjectFile p s = Inr s1"
  from a have d: "CHR ''$'' \<notin> set (version p)" and l: "CHR ''<'' \<notin> set (version p)" by simp_all
  from updateProjectFile_second [OF m d l f]
  show "updateProjectFile p s1 = Inr s1" by (rule conjunct1)
  from f obtain content where c: "files s (path p) = Some content"
    by (auto simp: updateProjectFile_def readFile_def split: option.splits)
  with updateProjectFile_result [OF m c f]
  show "\<exists>content. files s (path p) = Some content
                    \<and> files s1 = (files s)(path p \<mapsto>
                         updatedContentOf (version p) major minor patch prerelease content)"
    by blast
qed

theorem updateProjectFile_idempotent_witness:
  "updateProjectFile (demoProject ''A'' ''/w/A.csproj'' ''1.2.3-rc.1'' True)
      (projr (updateProjectFile (demoProject ''A'' ''/w/A.csproj'' ''1.2.3-rc.1'' True)
         (oneFile ''/w/A.csproj'' (''<Version>1.0.0</Version>'' @ nl @ ''<VersionSuffix>beta</VersionSuffix>''))))
     = updateProjectFile (demoProject ''A'' ''/w/A.csproj'' ''1.2.3-rc.1'' True)
         (oneFile ''/w/A.csproj'' (''<Version>1.0.0</Version>'' @ nl @ ''<VersionSuffix>beta</VersionSuffix>''))
   \<and> files (projr (updateProjectFile (demoProject ''A'' ''/w/A.csproj'' ''1.2.3-rc.1'' True)
         (oneFile ''/w/A.csproj'' (''<Version>1.0.0</Version>'' @ nl @ ''<VersionSuffix>beta</VersionSuffix>''))))
       ''/w/A.csproj''
     = Some (''<Version>1.2.3-rc.1</Version>'' @ nl @ ''<VersionSuffix>rc.1</VersionSuffix>'')"
proof -
  let ?p = "demoProject ''A'' ''/w/A.csproj'' ''1.2.3-rc.1'' True"
  let ?c = "''<Version>1.0.0</Version>'' @ nl @ ''<VersionSuffix>beta</VersionSuffix>''"
  let ?s = "oneFile ''/w/A.csproj'' ?c"
  let ?u = "''<Version>1.2.3-rc.1</Version>'' @ nl @ ''<VersionSuffix>rc.1</VersionSuffix>''"
  have v: "version ?p = ''1.2.3-rc.1''" and pa: "path ?p = ''/w/A.csproj''" and pr: "project ?p = ''A''"
    by (simp_all add: demoProject_def)
  have m: "versionMatch (version ?p) = Some (''1'', ''2'', ''3'', Some ''rc.1'')"
    unfolding v by code_simp
  have u: "updatedContentOf (version ?p) ''1'' ''2'' ''3'' (Some ''rc.1'') ?c = ?u"
    unfolding v by code_simp
  have ne: "?u \<noteq> ?c" by (simp add: nl_def)
  have c: "files ?s (path ?p) = Some ?c" and w: "writable ?s (path ?p)"
    by (simp_all add: oneFile_def initialState_def pa)
  have first: "updateProjectFile ?p ?s
      = Inr (info (''Updated version properties in '' @ project ?p)
               (?s\<lparr>files := (files ?s)(path ?p \<mapsto> ?u)\<rparr>))"
    using m c u ne w by (rule updateProjectFile_changed)
  have ch: "CHR ''$'' \<notin> set (version ?p) \<and> CHR ''<'' \<notin> set (version ?p)"
    unfolding v by simp
  from updateProjectFile_idempotent [OF m] ch first
  have "updateProjectFile ?p (info (''Updated version properties in '' @ project ?p)
               (?s\<lparr>files := (files ?s)(path ?p \<mapsto> ?u)\<rparr>))
      = Inr (info (''Updated version properties in '' @ project ?p)
               (?s\<lparr>files := (files ?s)(path ?p \<mapsto> ?u)\<rparr>))"
    by blast
  then show ?thesis
    unfolding first by (simp add: info_def pa)
qed

text \<open>
  Claim C2, evaluated at two versions that match the pattern and hold \<open>$\<close> or \<open><\<close>.
  With the version \<open>1.0.0-$&\<close>, \<open>replace\<close> fills \<open>$&\<close> with the matched text: the
  second update writes a content that differs from the first (and logs a second
  write). With the version \<open>1.0.0-</Version>\<close> the greedy match of the second update
  runs into the \<open>VersionSuffix\<close> element written by the first.
\<close>

theorem updateProjectFile_twice_differs:
  "versionMatch ''1.0.0-$&'' = Some (''1'', ''0'', ''0'', Some ''$&'')
   \<and> files (updateProject demoPath (demoProject ''A'' ''/w/A.csproj'' ''1.0.0-$&'' True) True False
              (oneFile ''/w/A.csproj'' ''<Version>x</Version>'')) ''/w/A.csproj''
       = Some ''<Version>1.0.0-<Version>x</Version></Version>''
   \<and> files (updateProject demoPath (demoProject ''A'' ''/w/A.csproj'' ''1.0.0-$&'' True) True False
             (updateProject demoPath (demoProject ''A'' ''/w/A.csproj'' ''1.0.0-$&'' True) True False
               (oneFile ''/w/A.csproj'' ''<Version>x</Version>''))) ''/w/A.csproj''
       = Some ''<Version>1.0.0-<Version>1.0.0-<Version>x</Version></Version></Version>''
   \<and> logs (updateProject demoPath (demoProject ''A'' ''/w/A.csproj'' ''1.0.0-$&'' True) True False
             (updateProject demoPath (demoProject ''A'' ''/w/A.csproj'' ''1.0.0-$&'' True) True False
               (oneFile ''/w/A.csproj'' ''<Version>x</Version>'')))
       = [Info ''Updated version properties in A'', Info ''Updated version properties in A'']
   \<and> versionMatch ''1.0.0-</Version>'' = Some (''1'', ''0'', ''0'', Some ''</Version>'')
   \<and> files (updateProject demoPath (demoProject ''A'' ''/w/A.csproj'' ''1.0.0-</Version>'' True) True False
              (oneFile ''/w/A.csproj'' ''<Version>x</Version><VersionSuffix>y</VersionSuffix>'')) ''/w/A.csproj''
       = Some ''<Version>1.0.0-</Version></Version><VersionSuffix></Version></VersionSuffix>''
   \<and> files (updateProject demoPath (demoProject ''A'' ''/w/A.csproj'' ''1.0.0-</Version>'' True) True False
             (updateProject demoPath (demoProject ''A'' ''/w/A.csproj'' ''1.0.0-</Version>'' True) True False
              (oneFile ''/w/A.csproj'' ''<Version>x</Version><VersionSuffix>y</VersionSuffix>''))) ''/w/A.csproj''
       = Some ''<Version>1.0.0-</Version></Version></VersionSuffix>''"
  by code_simp

text \<open>
  What the update leaves alone. For a record whose version matches the pattern without a
  prerelease part: the update changes the manifest file only, to the content the
  replacements give; that content is computed line by line; a line that holds none of
  the opening tags \<open><Version>\<close>, \<open><VersionMajor>\<close>, \<open><VersionMinor>\<close>, \<open><VersionPatch>\<close>
  is unchanged; a line that holds a \<open>VersionSuffix\<close> element and no other \<open><\<close> is
  unchanged (the stale suffix stays); and in a line that holds one of the four elements
  and no other \<open><\<close>, the value of the element is replaced and the rest of the line
  stays.
\<close>

theorem updateProjectFile_no_prerelease:
  assumes m: "versionMatch (version p) = Some (major, minor, patch, None)"
  shows "(\<forall>s s' content. updateProjectFile p s = Inr s' \<and> files s (path p) = Some content \<longrightarrow>
            files s' = (files s)(path p \<mapsto> updatedContentOf (version p) major minor patch None content))
       \<and> (\<forall>l c rest. isLineTerminator c \<longrightarrow>
            updatedContentOf (version p) major minor patch None (l @ c # rest)
              = updatedContentOf (version p) major minor patch None l @ c
                # updatedContentOf (version p) major minor patch None rest)
       \<and> (\<forall>l. \<not> sublist ''<Version>'' l \<and> \<not> sublist ''<VersionMajor>'' l
               \<and> \<not> sublist ''<VersionMinor>'' l \<and> \<not> sublist ''<VersionPatch>'' l \<longrightarrow>
            updatedContentOf (version p) major minor patch None l = l)
       \<and> (\<forall>ws x ws'. plain ws \<and> plain x \<and> plain ws' \<longrightarrow>
            updatedContentOf (version p) major minor patch None
                (ws @ ''<VersionSuffix>'' @ x @ ''</VersionSuffix>'' @ ws')
              = ws @ ''<VersionSuffix>'' @ x @ ''</VersionSuffix>'' @ ws'
          \<and> updatedContentOf (version p) major minor patch None
                (ws @ ''<Version>'' @ x @ ''</Version>'' @ ws')
              = ws @ ''<Version>'' @ version p @ ''</Version>'' @ ws'
          \<and> updatedContentOf (version p) major minor patch None
                (ws @ ''<VersionMajor>'' @ x @ ''</VersionMajor>'' @ ws')
              = ws @ ''<VersionMajor>'' @ major @ ''</VersionMajor>'' @ ws'
          \<and> updatedContentOf (version p) major minor patch None
                (ws @ ''<VersionMinor>'' @ x @ ''</VersionMinor>'' @ ws')
              = ws @ ''<VersionMinor>'' @ minor @ ''</VersionMinor>'' @ ws'
          \<and> updatedContentOf (version p) major minor patch None
                (ws @ ''<VersionPatch>'' @ x @ ''</VersionPatch>'' @ ws')
              = ws @ ''<VersionPatch>'' @ patch @ ''</VersionPatch>'' @ ws')"
proof -
  let ?xs = "tagSteps (version p) major minor patch None"
  have g: "list_all goodStep ?xs"
    using m match_None_chars [OF m] by (rule tagSteps_good)
  have a: "apartSteps ?xs" by (rule tagSteps_apart)
  have 1: "files s' = (files s)(path p \<mapsto> updatedContentOf (version p) major minor patch None content)"
    if "updateProjectFile p s = Inr s' \<and> files s (path p) = Some content" for s s' content
    using updateProjectFile_result [OF m] that by blast
  have 2: "updatedContentOf (version p) major minor patch None (l @ c # rest)
              = updatedContentOf (version p) major minor patch None l @ c
                # updatedContentOf (version p) major minor patch None rest"
    if "isLineTerminator c" for l c rest
    unfolding updatedContentOf_steps using that g by (rule replaceSteps_line)
  have 3: "updatedContentOf (version p) major minor patch None l = l"
    if "\<not> sublist ''<Version>'' l \<and> \<not> sublist ''<VersionMajor>'' l
               \<and> \<not> sublist ''<VersionMinor>'' l \<and> \<not> sublist ''<VersionPatch>'' l" for l
    unfolding updatedContentOf_steps
    by (rule replaceSteps_noOpen) (use that in \<open>simp add: tagSteps_None openTag_def\<close>)
  have sfx: "list_all (\<lambda>y. apart (fst y) ''VersionSuffix'') ?xs"
    by (simp add: tagSteps_None apart_def)
  have ps: "plain ''VersionSuffix''" by (simp add: isLineTerminator_def)
  have 4: "updatedContentOf (version p) major minor patch None
                (ws @ ''<VersionSuffix>'' @ x @ ''</VersionSuffix>'' @ ws')
              = ws @ ''<VersionSuffix>'' @ x @ ''</VersionSuffix>'' @ ws'"
    if "plain ws \<and> plain x \<and> plain ws'" for ws x ws'
    using replaceSteps_other_element [OF g sfx ps, of ws x ws'] that
    by (simp add: updatedContentOf_steps openTag_def closeTag_def)
  have 5: "updatedContentOf (version p) major minor patch None
                (ws @ openTag n @ x @ closeTag n @ ws')
              = ws @ openTag n @ w @ closeTag n @ ws'"
    if "plain ws \<and> plain x \<and> plain ws'" "(n, w) \<in> set ?xs" for ws x ws' n w
    unfolding updatedContentOf_steps using g a that(2) that(1) by (intro replaceSteps_element) simp_all
  show ?thesis
    using 1 2 3 4
      5 [of _ _ _ "''Version''" "version p"] 5 [of _ _ _ "''VersionMajor''" major]
      5 [of _ _ _ "''VersionMinor''" minor] 5 [of _ _ _ "''VersionPatch''" patch]
    by (simp add: tagSteps_None openTag_def closeTag_def)
qed



theorem updateProjectFile_no_prerelease_witness:
  "updatedContentOf ''2.0.0'' ''2'' ''0'' ''0'' None ''  <VersionSuffix>beta</VersionSuffix>''
     = ''  <VersionSuffix>beta</VersionSuffix>''
   \<and> updatedContentOf ''2.0.0'' ''2'' ''0'' ''0'' None ''  <Version>1.0.0</Version>''
     = ''  <Version>2.0.0</Version>''
   \<and> updatedContentOf ''2.0.0'' ''2'' ''0'' ''0'' None
       (''  <Version>1.0.0</Version>'' @ CHR 0x0A # ''  <VersionSuffix>beta</VersionSuffix>'')
     = ''  <Version>2.0.0</Version>'' @ CHR 0x0A # ''  <VersionSuffix>beta</VersionSuffix>''
   \<and> updatedContentOf ''2.0.0'' ''2'' ''0'' ''0'' None ''  <Authors>me</Authors>''
     = ''  <Authors>me</Authors>''"
proof -
  let ?p = "demoProject ''A'' ''/w/A.csproj'' ''2.0.0'' True"
  have v: "version ?p = ''2.0.0''" by (simp add: demoProject_def)
  have m: "versionMatch (version ?p) = Some (''2'', ''0'', ''0'', None)"
    unfolding v by code_simp
  note th = updateProjectFile_no_prerelease [OF m, unfolded v]
  have lt: "isLineTerminator (CHR 0x0A)" by (simp add: isLineTerminator_def)
  have pl: "plain ''  '' \<and> plain ''beta'' \<and> plain []" "plain ''  '' \<and> plain ''1.0.0'' \<and> plain []"
    by (simp_all add: isLineTerminator_def)
  have ns: "\<not> sublist ''<Version>'' ''  <Authors>me</Authors>'' \<and> \<not> sublist ''<VersionMajor>'' ''  <Authors>me</Authors>''
      \<and> \<not> sublist ''<VersionMinor>'' ''  <Authors>me</Authors>'' \<and> \<not> sublist ''<VersionPatch>'' ''  <Authors>me</Authors>''"
    by code_simp
  have a: "updatedContentOf ''2.0.0'' ''2'' ''0'' ''0'' None ''  <VersionSuffix>beta</VersionSuffix>''
     = ''  <VersionSuffix>beta</VersionSuffix>''"
    and b: "updatedContentOf ''2.0.0'' ''2'' ''0'' ''0'' None ''  <Version>1.0.0</Version>''
     = ''  <Version>2.0.0</Version>''"
    using th [THEN conjunct2, THEN conjunct2, THEN conjunct2, rule_format, OF pl(1)]
      th [THEN conjunct2, THEN conjunct2, THEN conjunct2, rule_format, OF pl(2)]
    by simp_all
  have c: "updatedContentOf ''2.0.0'' ''2'' ''0'' ''0'' None
       (''  <Version>1.0.0</Version>'' @ CHR 0x0A # ''  <VersionSuffix>beta</VersionSuffix>'')
     = ''  <Version>2.0.0</Version>'' @ CHR 0x0A # ''  <VersionSuffix>beta</VersionSuffix>''"
    using th [THEN conjunct2, THEN conjunct1, rule_format, OF lt] by (simp only: a b)
  have d: "updatedContentOf ''2.0.0'' ''2'' ''0'' ''0'' None ''  <Authors>me</Authors>''
     = ''  <Authors>me</Authors>''"
    using th [THEN conjunct2, THEN conjunct2, THEN conjunct1, rule_format, OF ns] .
  show ?thesis by (intro conjI a b c d)
qed


text \<open>
  Claim C10, evaluated at a line with two \<open>Version\<close> elements: the match runs
  from the first opening tag to the last closing tag of the line, and the
  \<open>VersionSuffix\<close> element and the property group tags between them are gone.
\<close>

theorem updateProjectFile_merges_elements:
  "versionMatch ''2.0.0'' = Some (''2'', ''0'', ''0'', None)
   \<and> files (updateProject demoPath (demoProject ''A'' ''/w/A.csproj'' ''2.0.0'' True) True False
              (oneFile ''/w/A.csproj''
                 ''<PropertyGroup><Version>1.0.0</Version><VersionSuffix>beta</VersionSuffix></PropertyGroup><PropertyGroup><Version>1.0.0</Version></PropertyGroup>''))
         ''/w/A.csproj''
       = Some ''<PropertyGroup><Version>2.0.0</Version></PropertyGroup>''
   \<and> \<not> sublist ''<VersionSuffix>beta</VersionSuffix>'' ''<PropertyGroup><Version>2.0.0</Version></PropertyGroup>''"
  by code_simp

end
